theory Spec2Isabelle
  imports Complex_Main "HOL-Library.Log_Nat" "HOL-Library.Multiset"
begin

section \<open>Python values and exceptions\<close>

text \<open>
  The program (\<^verbatim>\<open>infra-logging.py\<close>) reads index metadata as loosely typed JSON, cleans
  it in \<^verbatim>\<open>refine_data\<close> and analyses it in the class \<^verbatim>\<open>AnalyzeData\<close>. A value produced
  by \<^verbatim>\<open>json.load\<close> or \<^verbatim>\<open>response.json()\<close> is \<^verbatim>\<open>None\<close>, a bool, an unbounded int, a
  float, a str, a list or a dict with string keys. A dict is an association list (keys
  distinct, looked up with \<open>map_of\<close>). A string is a list of code points below 256.
  A float is its exact rational value, or one of the three special values, which the
  JSON reader accepts as \<^verbatim>\<open>Infinity\<close>, \<^verbatim>\<open>-Infinity\<close> and \<^verbatim>\<open>NaN\<close>.
\<close>

datatype py_error = KeyError | TypeError | ValueError | ZeroDivisionError | OverflowError

datatype py_float = Finite rat | PosInf | NegInf | NaN

datatype py_value =
    PyNone
  | PyBool bool
  | PyInt int
  | PyFloat py_float
  | PyStr string
  | PyList "py_value list"
  | PyDict "(string \<times> py_value) list"

text \<open>Sequencing of computations that may raise: the first exception wins.\<close>

definition bind_err :: "py_error + 'a \<Rightarrow> ('a \<Rightarrow> py_error + 'b) \<Rightarrow> py_error + 'b" where
  "bind_err m f = (case m of Inl e \<Rightarrow> Inl e | Inr x \<Rightarrow> f x)"

text \<open>
  \<^verbatim>\<open>v[key]\<close> with a string key: a dict looks the key up and raises \<^verbatim>\<open>KeyError\<close> when it is
  missing; a str or a list wants an integer index, and the other values cannot be
  subscripted, so all of them raise \<^verbatim>\<open>TypeError\<close>.
\<close>

fun py_getitem :: "py_value \<Rightarrow> string \<Rightarrow> py_error + py_value" where
  "py_getitem (PyDict kvs) k = (case map_of kvs k of None \<Rightarrow> Inl KeyError | Some v \<Rightarrow> Inr v)"
| "py_getitem PyNone k = Inl TypeError"
| "py_getitem (PyBool b) k = Inl TypeError"
| "py_getitem (PyInt n) k = Inl TypeError"
| "py_getitem (PyFloat f) k = Inl TypeError"
| "py_getitem (PyStr s) k = Inl TypeError"
| "py_getitem (PyList xs) k = Inl TypeError"

text \<open>
  \<^verbatim>\<open>for index in data\<close>: a list yields its elements, a dict its keys, a str its
  characters (each a str of length one); the other values are not iterable.
\<close>

fun py_iter :: "py_value \<Rightarrow> py_error + py_value list" where
  "py_iter (PyList xs) = Inr xs"
| "py_iter (PyDict kvs) = Inr (map (\<lambda>kv. PyStr (fst kv)) kvs)"
| "py_iter (PyStr s) = Inr (map (\<lambda>c. PyStr [c]) s)"
| "py_iter PyNone = Inl TypeError"
| "py_iter (PyBool b) = Inl TypeError"
| "py_iter (PyInt n) = Inl TypeError"
| "py_iter (PyFloat f) = Inl TypeError"

section \<open>The built-in \<^verbatim>\<open>int\<close>\<close>

text \<open>
  \<^verbatim>\<open>int(s)\<close> for a str, base 10, as CPython's \<^verbatim>\<open>PyLong_FromString\<close> reads it: leading
  whitespace, an optional sign, then digits in which single underscores may stand between
  two digits, then trailing whitespace and nothing else. Whitespace is tab, line feed,
  vertical tab, form feed, carriage return and space, and of the code points from 128
  to 255 the next-line and no-break-space characters. A literal of more than 4300
  digits is refused (the default of \<^verbatim>\<open>sys.get_int_max_str_digits()\<close>). Every failure is a
  \<^verbatim>\<open>ValueError\<close>.
\<close>

definition is_space :: "char \<Rightarrow> bool" where
  "is_space c \<longleftrightarrow> of_char c \<in> set [9, 10, 11, 12, 13, 32, 133, 160 :: nat]"

definition is_digit :: "char \<Rightarrow> bool" where
  "is_digit c \<longleftrightarrow> 48 \<le> (of_char c :: nat) \<and> (of_char c :: nat) \<le> 57"

definition digit_value :: "char \<Rightarrow> int" where
  "digit_value c = int (of_char c) - 48"

definition digits_value :: "string \<Rightarrow> int" where
  "digits_value ds = foldl (\<lambda>acc c. 10 * acc + digit_value c) 0 ds"

fun valid_digits :: "string \<Rightarrow> bool" where
  "valid_digits [] = False"
| "valid_digits [c] = is_digit c"
| "valid_digits (c # d # cs) =
     (is_digit c \<and> (if d = CHR ''_'' then valid_digits cs else valid_digits (d # cs)))"

definition int_max_str_digits :: nat where
  "int_max_str_digits = 4300"

definition int_of_str :: "string \<Rightarrow> py_error + int" where
  "int_of_str s =
     (let t = dropWhile is_space s;
          negative = (t \<noteq> [] \<and> hd t = CHR ''-'');
          u = (if t \<noteq> [] \<and> (hd t = CHR ''+'' \<or> hd t = CHR ''-'') then tl t else t);
          body = takeWhile (\<lambda>c. is_digit c \<or> c = CHR ''_'') u;
          rest = dropWhile (\<lambda>c. is_digit c \<or> c = CHR ''_'') u;
          ds = filter is_digit body
      in if valid_digits body \<and> list_all is_space rest \<and> length ds \<le> int_max_str_digits
         then Inr (if negative then - digits_value ds else digits_value ds)
         else Inl ValueError)"

text \<open>
  \<^verbatim>\<open>int(x)\<close> for a float truncates toward zero; \<^verbatim>\<open>int(nan)\<close> is a \<^verbatim>\<open>ValueError\<close> and
  \<^verbatim>\<open>int(inf)\<close> an \<^verbatim>\<open>OverflowError\<close>.
\<close>

definition trunc :: "rat \<Rightarrow> int" where
  "trunc q = (if 0 \<le> q then \<lfloor>q\<rfloor> else \<lceil>q\<rceil>)"

fun int_of_float :: "py_float \<Rightarrow> py_error + int" where
  "int_of_float (Finite q) = Inr (trunc q)"
| "int_of_float NaN = Inl ValueError"
| "int_of_float PosInf = Inl OverflowError"
| "int_of_float NegInf = Inl OverflowError"

fun py_int :: "py_value \<Rightarrow> py_error + int" where
  "py_int (PyInt n) = Inr n"
| "py_int (PyBool b) = Inr (if b then 1 else 0)"
| "py_int (PyFloat f) = int_of_float f"
| "py_int (PyStr s) = int_of_str s"
| "py_int PyNone = Inl TypeError"
| "py_int (PyList xs) = Inl TypeError"
| "py_int (PyDict kvs) = Inl TypeError"

section \<open>Floating point\<close>

text \<open>
  A finite Python float is an IEEE 754 binary64 number; the model works with its exact
  rational value. \<open>round_to_double\<close> is rounding to the nearest binary64 value, ties to
  the even significand, with gradual underflow (the exponent never drops below \<open>-1022\<close>)
  and no upper bound: the operations below raise \<^verbatim>\<open>OverflowError\<close> when the rounded
  value reaches \<open>2 ^ 1024\<close>. The sign of a zero is not kept: \<^verbatim>\<open>-0.0\<close> and \<^verbatim>\<open>0.0\<close> compare
  equal and divide and truncate alike.
\<close>

definition binary_exponent :: "rat \<Rightarrow> int" where
  "binary_exponent q =
     (let (a, b) = quotient_of q; e = bitlen a - bitlen b
      in if 2 powi e \<le> q then e else e - 1)"

definition round_half_even :: "rat \<Rightarrow> int" where
  "round_half_even q =
     (let f = \<lfloor>q\<rfloor>; d = q - of_int f
      in if d < 1 / 2 then f else if 1 / 2 < d then f + 1 else if even f then f else f + 1)"

definition round_to_double :: "rat \<Rightarrow> rat" where
  "round_to_double q =
     (if q = 0 then 0
      else let e = max (binary_exponent \<bar>q\<bar>) (- 1022); ulp = 2 powi (e - 52)
           in sgn q * of_int (round_half_even (\<bar>q\<bar> / ulp)) * ulp)"

definition checked_double :: "rat \<Rightarrow> py_error + rat" where
  "checked_double q =
     (let r = round_to_double q in if 2 ^ 1024 \<le> \<bar>r\<bar> then Inl OverflowError else Inr r)"

definition is_double :: "rat \<Rightarrow> bool" where
  "is_double q \<longleftrightarrow> round_to_double q = q \<and> \<bar>q\<bar> < 2 ^ 1024"

text \<open>
  \<^verbatim>\<open>a / b\<close> for two ints is the correctly rounded quotient (\<^verbatim>\<open>long_true_divide\<close>).
  \<^verbatim>\<open>float(n)\<close> is the correctly rounded int (\<^verbatim>\<open>PyLong_AsDouble\<close>). \<^verbatim>\<open>x / n\<close> for a float
  and an int converts the int first and then divides in binary64; the divisor is a
  non-zero integer there, so the quotient is no larger than \<open>x\<close> and cannot overflow.
\<close>

definition int_truediv :: "int \<Rightarrow> int \<Rightarrow> py_error + rat" where
  "int_truediv a b =
     (if b = 0 then Inl ZeroDivisionError else checked_double (of_int a / of_int b))"

definition float_of_int :: "int \<Rightarrow> py_error + rat" where
  "float_of_int n = checked_double (of_int n)"

definition float_truediv_int :: "rat \<Rightarrow> int \<Rightarrow> py_error + rat" where
  "float_truediv_int x n =
     bind_err (float_of_int n)
       (\<lambda>y. if y = 0 then Inl ZeroDivisionError else Inr (round_to_double (x / y)))"

text \<open>
  \<^verbatim>\<open>round(x, ndigits)\<close> for a finite float and \<open>0 \<le> ndigits\<close>: the exact value is
  rounded to \<open>ndigits\<close> decimal places, ties to the even digit (\<^verbatim>\<open>_Py_dg_dtoa\<close> in mode 3),
  and the decimal result is read back as the nearest float (\<^verbatim>\<open>_Py_dg_strtod\<close>).
\<close>

definition py_round :: "rat \<Rightarrow> nat \<Rightarrow> py_error + rat" where
  "py_round x ndigits =
     checked_double (of_int (round_half_even (x * 10 ^ ndigits)) / 10 ^ ndigits)"

section \<open>\<^verbatim>\<open>refine_data\<close>\<close>

text \<open>
  The dict that \<^verbatim>\<open>refine_data\<close> builds has the keys \<^verbatim>\<open>index\<close>, \<^verbatim>\<open>size\<close> and \<^verbatim>\<open>shards\<close>;
  \<^verbatim>\<open>print_least_balanced\<close> later stores \<^verbatim>\<open>balance_ratio\<close> and \<^verbatim>\<open>rec_shard_count\<close> into the
  same dict. The record has the three keys as fields (\<^verbatim>\<open>size\<close> is the field \<open>size_gb\<close>) and
  the two later keys as optional fields, \<open>None\<close> while the key is absent. The index name
  is stored as it was read, whatever its type.
\<close>

record index_rec =
  index :: py_value
  size_gb :: rat
  shards :: int
  balance_ratio :: "int option"
  rec_shard_count :: "int option"

text \<open>
  The body of the \<^verbatim>\<open>try\<close>: the three values of the dict display are computed from left
  to right, and the first exception leaves the \<^verbatim>\<open>try\<close>.
\<close>

definition refine_entry :: "py_value \<Rightarrow> py_error + index_rec" where
  "refine_entry idx =
     bind_err (py_getitem idx ''index'') (\<lambda>name.
     bind_err (py_getitem idx ''pri.store.size'') (\<lambda>raw_size.
     bind_err (py_int raw_size) (\<lambda>bytes.
     bind_err (int_truediv bytes (1000 ^ 3)) (\<lambda>gb.
     bind_err (py_round gb 2) (\<lambda>sz.
     bind_err (py_getitem idx ''pri'') (\<lambda>raw_pri.
     bind_err (py_int raw_pri) (\<lambda>pri.
     Inr \<lparr>index = name, size_gb = sz, shards = pri,
          balance_ratio = None, rec_shard_count = None\<rparr>)))))))"

text \<open>
  The loop: \<^verbatim>\<open>except Exception\<close> catches every exception of the body and appends the raw
  entry to \<^verbatim>\<open>errors\<close>; otherwise the new dict is appended to \<^verbatim>\<open>refined\<close>.
\<close>

fun refine_loop ::
  "py_value list \<Rightarrow> index_rec list \<Rightarrow> py_value list \<Rightarrow> index_rec list \<times> py_value list" where
  "refine_loop [] refined errors = (refined, errors)"
| "refine_loop (idx # rest) refined errors =
     (case refine_entry idx of
        Inr r \<Rightarrow> refine_loop rest (refined @ [r]) errors
      | Inl e \<Rightarrow> refine_loop rest refined (errors @ [idx]))"

text \<open>
  \<^verbatim>\<open>refine_data\<close> returns \<^verbatim>\<open>refined\<close> and prints \<^verbatim>\<open>errors\<close> when it is not empty. The
  result of the model is the pair of the returned list and the reported list (empty: no
  report). Iterating over \<^verbatim>\<open>data\<close> is outside the \<^verbatim>\<open>try\<close>, so its exception propagates.
\<close>

definition refine_data :: "py_value \<Rightarrow> py_error + index_rec list \<times> py_value list" where
  "refine_data data = bind_err (py_iter data) (\<lambda>entries. Inr (refine_loop entries [] []))"

section \<open>\<^verbatim>\<open>AnalyzeData\<close>\<close>

text \<open>
  \<^verbatim>\<open>sorted(xs, key=f, reverse=True)\<close>: CPython reverses the list, sorts it with a stable
  ascending sort and reverses the result, so equal keys keep their input order.
\<close>

definition py_sorted_reverse :: "('a \<Rightarrow> 'k::linorder) \<Rightarrow> 'a list \<Rightarrow> 'a list" where
  "py_sorted_reverse key xs = rev (sort_key key (rev xs))"

text \<open>
  The state of an \<^verbatim>\<open>AnalyzeData\<close> object is \<^verbatim>\<open>self.data\<close>, the list of dicts; the dicts
  are distinct objects, as \<^verbatim>\<open>refine_data\<close> builds them. Every method returns what it
  printed and the state it leaves. \<^verbatim>\<open>print_largest_indexes\<close> and
  \<^verbatim>\<open>print_most_shards\<close> sort a copy and print two keys of the first five dicts.
\<close>

definition sorted_largest_index :: "index_rec list \<Rightarrow> index_rec list" where
  "sorted_largest_index data = py_sorted_reverse size_gb data"

definition print_largest_indexes ::
  "index_rec list \<Rightarrow> (py_value \<times> rat) list \<times> index_rec list" where
  "print_largest_indexes data =
     (map (\<lambda>r. (index r, size_gb r)) (take 5 (sorted_largest_index data)), data)"

definition sorted_largest_shard_count :: "index_rec list \<Rightarrow> index_rec list" where
  "sorted_largest_shard_count data = py_sorted_reverse shards data"

definition print_most_shards ::
  "index_rec list \<Rightarrow> (py_value \<times> int) list \<times> index_rec list" where
  "print_most_shards data =
     (map (\<lambda>r. (index r, shards r)) (take 5 (sorted_largest_shard_count data)), data)"

text \<open>
  The body of the loop of \<^verbatim>\<open>print_least_balanced\<close> for one dict. The first statement
  divides before it stores anything, so an exception leaves the dict as it was.
\<close>

definition SHARD_SZ_GB :: int where
  "SHARD_SZ_GB = 30"

definition derive_balance :: "index_rec \<Rightarrow> py_error + index_rec" where
  "derive_balance r =
     bind_err (float_truediv_int (size_gb r) (shards r)) (\<lambda>ratio.
       let r1 = r\<lparr>balance_ratio := Some (trunc ratio)\<rparr>
       in if of_int SHARD_SZ_GB \<le> size_gb r
          then bind_err (float_truediv_int (size_gb r) SHARD_SZ_GB)
                 (\<lambda>q. Inr (r1\<lparr>rec_shard_count := Some (trunc q)\<rparr>))
          else if 0 < size_gb r \<and> size_gb r < of_int SHARD_SZ_GB
          then Inr (r1\<lparr>rec_shard_count := Some 1\<rparr>)
          else Inr (r1\<lparr>rec_shard_count := Some 0\<rparr>))"

text \<open>
  The loop mutates the dicts of \<^verbatim>\<open>self.data\<close> in order. When a dict raises, the dicts
  before it keep their new keys and the loop is left.
\<close>

fun derive_all :: "index_rec list \<Rightarrow> py_error option \<times> index_rec list" where
  "derive_all [] = (None, [])"
| "derive_all (r # rs) =
     (case derive_balance r of
        Inl e \<Rightarrow> (Some e, r # rs)
      | Inr r' \<Rightarrow> (case derive_all rs of (e, rs') \<Rightarrow> (e, r' # rs')))"

text \<open>
  The sort key \<^verbatim>\<open>x["balance_ratio"]\<close> raises \<^verbatim>\<open>KeyError\<close> on a dict without the key; the
  keys of all elements are computed before the sort.
\<close>

definition sorted_least_balanced :: "index_rec list \<Rightarrow> py_error + index_rec list" where
  "sorted_least_balanced data =
     (if list_all (\<lambda>r. balance_ratio r \<noteq> None) data
      then Inr (py_sorted_reverse (\<lambda>r. the (balance_ratio r)) data)
      else Inl KeyError)"

definition print_least_balanced ::
  "index_rec list \<Rightarrow> (py_error + index_rec list) \<times> index_rec list" where
  "print_least_balanced data =
     (case derive_all data of
        (Some e, data') \<Rightarrow> (Inl e, data')
      | (None, data') \<Rightarrow>
          (bind_err (sorted_least_balanced data') (\<lambda>s. Inr (take 5 s)), data'))"

text \<open>
  \<^verbatim>\<open>main\<close> after the input was read: the data is refined and, when the refined list is not
  empty, the three reports are printed in this order on one \<^verbatim>\<open>AnalyzeData\<close> object.
  Nothing catches an exception of the analysis. The result is \<open>None\<close> when there was
  nothing to analyse, and the three reports otherwise.
\<close>

definition run_analysis ::
  "py_value \<Rightarrow>
     py_error + ((py_value \<times> rat) list \<times> (py_value \<times> int) list \<times> index_rec list) option" where
  "run_analysis raw_data =
     bind_err (refine_data raw_data) (\<lambda>(data, errors).
       if data = [] then Inr None
       else (case print_largest_indexes data of (by_size, d1) \<Rightarrow>
             (case print_most_shards d1 of (by_shards, d2) \<Rightarrow>
              (case print_least_balanced d2 of (balanced, d3) \<Rightarrow>
                 bind_err balanced (\<lambda>b. Inr (Some (by_size, by_shards, b)))))))"

text \<open>
  The part of a dict that \<^verbatim>\<open>refine_data\<close> wrote: the three keys of the cleaned record.
\<close>

definition canonical :: "index_rec \<Rightarrow> py_value \<times> rat \<times> int" where
  "canonical r = (index r, size_gb r, shards r)"

section \<open>Properties of the floating-point model\<close>

text \<open>
  The binary exponent of a positive rational \<open>q\<close> is the \<open>e\<close> with
  \<open>2 powi e \<le> q\<close> and \<open>q < 2 powi (e + 1)\<close>.
\<close>

lemma bitlen_powi_bounds:
  assumes "0 < a"
  shows "(2::rat) powi (bitlen a - 1) \<le> of_int a" and "of_int a < (2::rat) powi (bitlen a)"
proof -
  have b: "2 ^ nat (bitlen a - 1) \<le> a" "a < 2 ^ nat (bitlen a)"
    using bitlen_bounds [OF assms] by simp_all
  have p: "1 \<le> bitlen a"
    using assms bitlen_eq_zero_iff [of a] bitlen_nonneg [of a] by linarith
  have "(2::rat) powi (bitlen a - 1) = of_int (2 ^ nat (bitlen a - 1))"
    using p by (simp add: power_int_def)
  also have "\<dots> \<le> of_int a"
    using b(1) by (simp only: of_int_le_iff)
  finally show "(2::rat) powi (bitlen a - 1) \<le> of_int a" .
  have "(of_int a :: rat) < of_int (2 ^ nat (bitlen a))"
    using b(2) by (simp only: of_int_less_iff)
  also have "\<dots> = 2 powi (bitlen a)"
    using p by (simp add: power_int_def)
  finally show "of_int a < (2::rat) powi (bitlen a)" .
qed

lemma binary_exponent_bounds:
  assumes "0 < q"
  shows "2 powi (binary_exponent q) \<le> q" and "q < 2 powi (binary_exponent q + 1)"
proof -
  obtain a b where ab: "quotient_of q = (a, b)"
    by (cases "quotient_of q")
  have bpos: "0 < b" using ab by (rule quotient_of_denom_pos)
  have q: "q = of_int a / of_int b" using ab by (rule quotient_of_div)
  have apos: "0 < a"
    using assms bpos unfolding q by (simp add: zero_less_divide_iff)
  define e where "e = bitlen a - bitlen b"
  note ba = bitlen_powi_bounds [OF apos] and bb = bitlen_powi_bounds [OF bpos]
  have bq: "(0::rat) < of_int b" using bpos by simp
  have low: "2 powi (e - 1) \<le> q"
  proof -
    have "(2::rat) powi (e - 1) * of_int b \<le> 2 powi (e - 1) * 2 powi (bitlen b)"
      using bb(2) by (intro mult_left_mono) (simp_all add: less_imp_le)
    also have "\<dots> = 2 powi (bitlen a - 1)"
      by (simp add: e_def power_int_add [symmetric])
    also have "\<dots> \<le> of_int a" by (rule ba(1))
    finally show ?thesis
      unfolding q using bq by (simp add: pos_le_divide_eq)
  qed
  have high: "q < 2 powi (e + 1)"
  proof -
    have "of_int a < (2::rat) powi (bitlen a)" by (rule ba(2))
    also have "\<dots> = 2 powi (e + 1) * 2 powi (bitlen b - 1)"
      by (simp add: e_def power_int_add [symmetric])
    also have "\<dots> \<le> 2 powi (e + 1) * of_int b"
      using bb(1) by (intro mult_left_mono) simp_all
    finally show ?thesis
      unfolding q using bq by (simp add: pos_divide_less_eq)
  qed
  have be: "binary_exponent q = (if 2 powi e \<le> q then e else e - 1)"
    by (simp add: binary_exponent_def ab e_def Let_def)
  show "2 powi (binary_exponent q) \<le> q"
    using low by (simp add: be)
  show "q < 2 powi (binary_exponent q + 1)"
    using high by (simp add: be not_le)
qed

lemma two_powi_less_imp:
  assumes "(2::rat) powi m < 2 powi n"
  shows "m < n"
proof (rule ccontr)
  assume "\<not> m < n"
  then have "n \<le> m" by simp
  then have "(2::rat) powi n \<le> 2 powi m"
    by (intro power_int_increasing) simp_all
  with assms show False by simp
qed

lemma binary_exponent_unique:
  assumes "2 powi e \<le> q" and "q < 2 powi (e + 1)"
  shows "binary_exponent q = e"
proof -
  have "(0::rat) < 2 powi e" by simp
  with assms(1) have qpos: "0 < q" by linarith
  note b = binary_exponent_bounds [OF qpos]
  have "(2::rat) powi (binary_exponent q) < 2 powi (e + 1)"
    using b(1) assms(2) by linarith
  then have 1: "binary_exponent q < e + 1"
    by (rule two_powi_less_imp)
  have "(2::rat) powi e < 2 powi (binary_exponent q + 1)"
    using b(2) assms(1) by linarith
  then have 2: "e < binary_exponent q + 1"
    by (rule two_powi_less_imp)
  from 1 2 show ?thesis by linarith
qed

text \<open>Rounding to an integer, ties to even: it fixes integers and is bracketed by them.\<close>

lemma round_half_even_of_int: "round_half_even (of_int n) = n"
  by (simp add: round_half_even_def)

lemma round_half_even_ge_floor: "\<lfloor>q\<rfloor> \<le> round_half_even q"
  by (simp add: round_half_even_def Let_def)

lemma round_half_even_le_floor: "round_half_even q \<le> \<lfloor>q\<rfloor> + 1"
  by (simp add: round_half_even_def Let_def)

lemma round_half_even_lower:
  assumes "of_int n \<le> q"
  shows "n \<le> round_half_even q"
proof -
  have "n \<le> \<lfloor>q\<rfloor>" using assms by (simp add: le_floor_iff)
  with round_half_even_ge_floor [of q] show ?thesis by linarith
qed

lemma round_half_even_upper:
  assumes "q \<le> of_int n"
  shows "round_half_even q \<le> n"
proof (cases "q = of_int n")
  case True
  then show ?thesis by (simp add: round_half_even_of_int)
next
  case False
  with assms have "q < of_int n" by simp
  then have "\<lfloor>q\<rfloor> < n" by (simp add: floor_less_iff)
  with round_half_even_le_floor [of q] show ?thesis by linarith
qed

lemma round_to_double_abs:
  "\<bar>round_to_double q\<bar> =
     (if q = 0 then 0
      else of_int (round_half_even (\<bar>q\<bar> / 2 powi (max (binary_exponent \<bar>q\<bar>) (- 1022) - 52))) *
           2 powi (max (binary_exponent \<bar>q\<bar>) (- 1022) - 52))"
proof (cases "q = 0")
  case True
  then show ?thesis by (simp add: round_to_double_def)
next
  case False
  define u :: rat where "u = 2 powi (max (binary_exponent \<bar>q\<bar>) (- 1022) - 52)"
  have upos: "0 < u" by (simp add: u_def)
  have "0 \<le> \<bar>q\<bar> / u" using upos by simp
  then have "0 \<le> round_half_even (\<bar>q\<bar> / u)"
    using round_half_even_lower [of 0 "\<bar>q\<bar> / u"] by simp
  then have r: "(0::rat) \<le> of_int (round_half_even (\<bar>q\<bar> / u))" by simp
  have "round_to_double q = sgn q * of_int (round_half_even (\<bar>q\<bar> / u)) * u"
    using False by (simp add: round_to_double_def Let_def u_def)
  then have "\<bar>round_to_double q\<bar> = \<bar>sgn q\<bar> * \<bar>of_int (round_half_even (\<bar>q\<bar> / u))\<bar> * \<bar>u\<bar>"
    by (simp add: abs_mult)
  also have "\<dots> = of_int (round_half_even (\<bar>q\<bar> / u)) * u"
    using False r upos by (simp add: abs_sgn_eq del: of_int_abs)
  finally show ?thesis using False by (simp add: u_def)
qed

lemma round_to_double_sgn: "sgn (round_to_double q) = sgn q \<or> round_to_double q = 0"
proof (cases "q = 0")
  case True
  then show ?thesis by (simp add: round_to_double_def)
next
  case False
  define u :: rat where "u = 2 powi (max (binary_exponent \<bar>q\<bar>) (- 1022) - 52)"
  define m where "m = round_half_even (\<bar>q\<bar> / u)"
  have upos: "0 < u" by (simp add: u_def)
  have "0 \<le> \<bar>q\<bar> / u" using upos by simp
  then have m0: "0 \<le> m"
    unfolding m_def using round_half_even_lower [of 0 "\<bar>q\<bar> / u"] by simp
  have r: "round_to_double q = sgn q * of_int m * u"
    using False by (simp add: round_to_double_def Let_def u_def m_def)
  show ?thesis
  proof (cases "m = 0")
    case True
    then show ?thesis by (simp add: r)
  next
    case False
    with m0 have "(0::rat) < of_int m" by simp
    then show ?thesis
      using upos by (simp add: r sgn_mult)
  qed
qed

lemma round_to_double_nonneg: "0 \<le> q \<Longrightarrow> 0 \<le> round_to_double q"
  using round_to_double_sgn [of q] by (auto simp: sgn_if split: if_splits)

text \<open>
  A number \<open>m * 2 powi e\<close> with \<open>\<bar>m\<bar> < 2 ^ 53\<close> and \<open>- 1074 \<le> e\<close> is a binary64 value, and
  rounding leaves it alone. Every int below \<open>2 ^ 53\<close> in absolute value is one.
\<close>

lemma round_to_double_representable:
  assumes q: "q = of_int m * 2 powi e" and m: "\<bar>m\<bar> < 2 ^ 53" and e: "- 1074 \<le> e"
  shows "round_to_double q = q"
proof (cases "q = 0")
  case True
  then show ?thesis by (simp add: round_to_double_def)
next
  case False
  define x where "x = max (binary_exponent \<bar>q\<bar>) (- 1022) - 52"
  define u :: rat where "u = 2 powi x"
  have upos: "0 < u" by (simp add: u_def)
  have aq: "\<bar>q\<bar> = of_int \<bar>m\<bar> * 2 powi e"
    by (simp add: q abs_mult)
  have qpos: "0 < \<bar>q\<bar>" using False by simp
  have "(of_int \<bar>m\<bar> :: rat) < of_int (2 ^ 53)"
    using m by (simp only: of_int_less_iff)
  then have "\<bar>q\<bar> < 2 ^ 53 * 2 powi e"
    unfolding aq by (intro mult_strict_right_mono) simp_all
  also have "\<dots> = 2 powi (e + 53)"
    by (simp add: power_int_add)
  finally have "\<bar>q\<bar> < 2 powi (e + 53)" .
  with binary_exponent_bounds(1) [OF qpos] have "(2::rat) powi (binary_exponent \<bar>q\<bar>) < 2 powi (e + 53)"
    by linarith
  then have "binary_exponent \<bar>q\<bar> < e + 53" by (rule two_powi_less_imp)
  with e have xe: "x \<le> e" by (simp add: x_def)
  define d where "d = nat (e - x)"
  have ed: "e = x + int d" using xe by (simp add: d_def)
  have "\<bar>q\<bar> / u = of_int \<bar>m\<bar> * 2 powi (int d)"
    unfolding aq u_def ed by (simp add: power_int_add)
  also have "\<dots> = of_int (\<bar>m\<bar> * 2 ^ d)"
    by simp
  finally have quot: "\<bar>q\<bar> / u = of_int (\<bar>m\<bar> * 2 ^ d)" .
  have "round_to_double q = sgn q * of_int (round_half_even (\<bar>q\<bar> / u)) * u"
    using False by (simp add: round_to_double_def Let_def u_def x_def)
  also have "\<dots> = sgn q * (\<bar>q\<bar> / u) * u"
    unfolding quot round_half_even_of_int ..
  also have "\<dots> = sgn q * \<bar>q\<bar>"
    using upos by simp
  also have "\<dots> = q" by (simp add: sgn_mult_abs)
  finally show ?thesis .
qed

lemma round_to_double_of_int:
  assumes "\<bar>n\<bar> < 2 ^ 53"
  shows "round_to_double (of_int n) = of_int n"
  by (rule round_to_double_representable [where m = n and e = 0]) (use assms in simp_all)

lemma checked_double_representable:
  assumes q: "q = of_int m * 2 powi e" and m: "\<bar>m\<bar> < 2 ^ 53" and e: "- 1074 \<le> e"
    and b: "\<bar>q\<bar> < 2 ^ 1024"
  shows "checked_double q = Inr q"
  using b by (simp add: checked_double_def round_to_double_representable [OF q m e] not_le [symmetric])

lemma checked_double_of_int:
  assumes "\<bar>n\<bar> < 2 ^ 53"
  shows "checked_double (of_int n) = Inr (of_int n)"
proof -
  have "(of_int \<bar>n\<bar> :: rat) < of_int (2 ^ 53)"
    using assms by (simp only: of_int_less_iff)
  also have "\<dots> < 2 ^ 1024" by simp
  finally have "\<bar>of_int n :: rat\<bar> < 2 ^ 1024" by simp
  then show ?thesis
    by (intro checked_double_representable [where m = n and e = 0]) (use assms in simp_all)
qed

text \<open>
  The rounded value stays in the binade of its argument, so an argument below
  \<open>2 powi 1023\<close> cannot overflow and a positive int stays positive.
\<close>

lemma round_to_double_upper:
  assumes "\<bar>q\<bar> < 2 powi n" and "- 1021 \<le> n"
  shows "\<bar>round_to_double q\<bar> \<le> 2 powi n"
proof (cases "q = 0")
  case True
  then show ?thesis by (simp add: round_to_double_def)
next
  case False
  define x where "x = max (binary_exponent \<bar>q\<bar>) (- 1022) - 52"
  define u :: rat where "u = 2 powi x"
  have upos: "0 < u" by (simp add: u_def)
  have qpos: "0 < \<bar>q\<bar>" using False by simp
  have "(2::rat) powi (binary_exponent \<bar>q\<bar>) < 2 powi n"
    using binary_exponent_bounds(1) [OF qpos] assms(1) by linarith
  then have "binary_exponent \<bar>q\<bar> < n" by (rule two_powi_less_imp)
  with assms(2) have xn: "x + 53 \<le> n" by (simp add: x_def)
  have "\<bar>q\<bar> < 2 powi (binary_exponent \<bar>q\<bar> + 1)"
    by (rule binary_exponent_bounds(2) [OF qpos])
  also have "\<dots> \<le> 2 powi (x + 53)"
    by (intro power_int_increasing) (simp_all add: x_def)
  also have "\<dots> = 2 ^ 53 * u"
    by (simp add: u_def power_int_add)
  finally have "\<bar>q\<bar> / u < 2 ^ 53"
    using upos by (simp add: pos_divide_less_eq)
  then have "\<bar>q\<bar> / u \<le> of_int (2 ^ 53)" by simp
  then have "round_half_even (\<bar>q\<bar> / u) \<le> 2 ^ 53"
    by (rule round_half_even_upper)
  then have "(of_int (round_half_even (\<bar>q\<bar> / u)) :: rat) \<le> of_int (2 ^ 53)"
    by (simp only: of_int_le_iff)
  then have "of_int (round_half_even (\<bar>q\<bar> / u)) * u \<le> 2 ^ 53 * u"
    using upos by (intro mult_right_mono) simp_all
  also have "\<dots> = 2 powi (x + 53)"
    by (simp add: u_def power_int_add)
  also have "\<dots> \<le> 2 powi n"
    using xn by (intro power_int_increasing) simp_all
  finally show ?thesis
    using False by (simp add: round_to_double_abs u_def x_def)
qed

lemma round_to_double_lower:
  assumes "2 powi n \<le> \<bar>q\<bar>" and "- 1022 \<le> n"
  shows "2 powi n \<le> \<bar>round_to_double q\<bar>"
proof -
  have "(0::rat) < 2 powi n" by simp
  with assms(1) have qpos: "0 < \<bar>q\<bar>" by linarith
  then have q0: "q \<noteq> 0" by simp
  define x where "x = max (binary_exponent \<bar>q\<bar>) (- 1022) - 52"
  define u :: rat where "u = 2 powi x"
  have upos: "0 < u" by (simp add: u_def)
  have "(2::rat) powi n < 2 powi (binary_exponent \<bar>q\<bar> + 1)"
    using binary_exponent_bounds(2) [OF qpos] assms(1) by linarith
  then have "n < binary_exponent \<bar>q\<bar> + 1" by (rule two_powi_less_imp)
  with assms(2) have x: "x = binary_exponent \<bar>q\<bar> - 52" and nx: "n \<le> x + 52"
    by (simp_all add: x_def)
  have "2 ^ 52 * u = 2 powi 52 * 2 powi (binary_exponent \<bar>q\<bar> - 52)"
    by (simp add: u_def x)
  also have "\<dots> = 2 powi (52 + (binary_exponent \<bar>q\<bar> - 52))"
    by (rule power_int_add [symmetric]) simp
  also have "\<dots> = 2 powi (binary_exponent \<bar>q\<bar>)"
    by simp
  also have "\<dots> \<le> \<bar>q\<bar>"
    by (rule binary_exponent_bounds(1) [OF qpos])
  finally have "of_int (2 ^ 52) \<le> \<bar>q\<bar> / u"
    using upos by (simp add: pos_le_divide_eq)
  then have "2 ^ 52 \<le> round_half_even (\<bar>q\<bar> / u)"
    by (rule round_half_even_lower)
  then have "(of_int (2 ^ 52) :: rat) \<le> of_int (round_half_even (\<bar>q\<bar> / u))"
    by (simp only: of_int_le_iff)
  then have "2 ^ 52 * u \<le> of_int (round_half_even (\<bar>q\<bar> / u)) * u"
    using upos by (intro mult_right_mono) simp_all
  moreover have "2 ^ 52 * u = 2 powi (x + 52)"
    by (simp add: u_def power_int_add)
  moreover have "(2::rat) powi n \<le> 2 powi (x + 52)"
    using nx by (intro power_int_increasing) simp_all
  ultimately have "2 powi n \<le> of_int (round_half_even (\<bar>q\<bar> / u)) * u"
    by linarith
  then show ?thesis
    using q0 by (simp add: round_to_double_abs u_def x_def)
qed

lemma checked_double_no_overflow:
  assumes "\<bar>q\<bar> < 2 powi 1023"
  shows "checked_double q = Inr (round_to_double q)"
proof -
  have "\<bar>round_to_double q\<bar> \<le> 2 powi 1023"
    using assms by (rule round_to_double_upper) simp
  also have "\<dots> < (2::rat) ^ 1024" by simp
  finally show ?thesis
    by (simp add: checked_double_def not_le [symmetric])
qed

lemma round_to_double_pos_int:
  assumes "0 < n"
  shows "1 \<le> round_to_double (of_int n)"
proof -
  have "(1::rat) \<le> of_int n" using assms by simp
  then have "(2::rat) powi 0 \<le> \<bar>of_int n\<bar>" by simp
  then have "(2::rat) powi 0 \<le> \<bar>round_to_double (of_int n)\<bar>"
    by (rule round_to_double_lower) simp
  moreover have "0 \<le> round_to_double (of_int n)"
    using assms by (intro round_to_double_nonneg) simp
  ultimately show ?thesis by simp
qed

text \<open>
  A fixed point of the rounding has a 53-bit significand; with it, a float that is an
  integer multiple of 30 is 30 times a float.
\<close>

lemma fixed_representable:
  assumes "round_to_double q = q"
  obtains m e where "q = of_int m * 2 powi e" and "\<bar>m\<bar> < 2 ^ 53" and "- 1074 \<le> e"
proof (cases "q = 0")
  case True
  then have "q = of_int 0 * 2 powi 0" by simp
  then show ?thesis by (rule that) simp_all
next
  case False
  define x where "x = max (binary_exponent \<bar>q\<bar>) (- 1022) - 52"
  define u :: rat where "u = 2 powi x"
  define k where "k = round_half_even (\<bar>q\<bar> / u)"
  have upos: "0 < u" by (simp add: u_def)
  have qpos: "0 < \<bar>q\<bar>" using False by simp
  have k0: "0 \<le> k"
    unfolding k_def using upos by (intro round_half_even_lower) simp
  have aq: "\<bar>q\<bar> = of_int k * u"
    using round_to_double_abs [of q] False assms by (simp add: k_def u_def x_def)
  have "\<bar>q\<bar> < 2 powi (binary_exponent \<bar>q\<bar> + 1)"
    by (rule binary_exponent_bounds(2) [OF qpos])
  also have "\<dots> \<le> 2 powi (53 + x)"
    by (intro power_int_increasing) (simp_all add: x_def)
  also have "\<dots> = 2 powi 53 * 2 powi x"
    by (rule power_int_add) simp
  finally have "of_int k * u < of_int (2 ^ 53) * u"
    by (simp add: aq u_def)
  then have "(of_int k :: rat) < of_int (2 ^ 53)"
    using upos by (simp only: mult_less_cancel_right_pos)
  then have k53: "k < 2 ^ 53" by (simp only: of_int_less_iff)
  have "q = sgn q * \<bar>q\<bar>" by (simp add: sgn_mult_abs)
  also have "\<dots> = of_int (sgn (if 0 < q then 1 else - 1) * k) * 2 powi x"
    using False by (simp add: aq u_def sgn_if)
  finally have "q = of_int (sgn (if 0 < q then 1 else - 1) * k) * 2 powi x" .
  then show ?thesis
  proof (rule that)
    show "\<bar>sgn (if 0 < q then 1 else - 1) * k\<bar> < 2 ^ 53"
      using k0 k53 by (simp add: abs_mult)
    show "- 1074 \<le> x" by (simp add: x_def)
  qed
qed



lemma round_half_even_below_half:
  assumes "q < of_int n + 1 / 2"
  shows "round_half_even q \<le> n"
proof (cases "q < of_int n")
  case True
  then show ?thesis by (intro round_half_even_upper) simp
next
  case False
  then have "of_int n \<le> q" by simp
  moreover have "q < of_int n + 1" using assms by simp
  ultimately have f: "\<lfloor>q\<rfloor> = n" by (rule floor_unique)
  with assms have "q - of_int \<lfloor>q\<rfloor> < 1 / 2" by simp
  then show ?thesis using f by (simp add: round_half_even_def Let_def)
qed

lemma round_half_even_above_half:
  assumes "of_int n - 1 / 2 < q"
  shows "n \<le> round_half_even q"
proof (cases "of_int n \<le> q")
  case True
  then show ?thesis by (rule round_half_even_lower)
next
  case False
  then have "q < of_int (n - 1) + 1" by simp
  moreover have "of_int (n - 1) \<le> q" using assms by simp
  ultimately have f: "\<lfloor>q\<rfloor> = n - 1" by (rule floor_unique [rotated])
  with assms have "1 / 2 < q - of_int \<lfloor>q\<rfloor>" by simp
  then show ?thesis using f by (simp add: round_half_even_def Let_def)
qed

lemma round_half_even_odd_tie:
  assumes "q = of_int n - 1 / 2" and "even n"
  shows "round_half_even q = n"
proof -
  have "of_int (n - 1) \<le> q" "q < of_int (n - 1) + 1" using assms(1) by simp_all
  then have f: "\<lfloor>q\<rfloor> = n - 1" by (rule floor_unique)
  have "q - of_int \<lfloor>q\<rfloor> = 1 / 2" using assms(1) f by simp
  then show ?thesis using f assms(2) by (simp add: round_half_even_def Let_def)
qed

text \<open>
  The overflow threshold: the rounded value stays below \<open>2 ^ 1024\<close> exactly when the
  argument is below \<open>2 ^ 1024 - 2 ^ 970\<close>, the midpoint between the largest binary64 value
  and \<open>2 ^ 1024\<close>.
\<close>

lemma round_to_double_top_binade:
  assumes "2 powi 1023 \<le> \<bar>q\<bar>" and "\<bar>q\<bar> < 2 powi 1024"
  shows "\<bar>round_to_double q\<bar> = of_int (round_half_even (\<bar>q\<bar> / 2 ^ 971)) * 2 ^ 971"
proof -
  have "binary_exponent \<bar>q\<bar> = 1023"
    using assms by (intro binary_exponent_unique) simp_all
  moreover have "q \<noteq> 0" using assms(1) by auto
  ultimately show ?thesis
    by (simp add: round_to_double_abs)
qed

lemma round_to_double_below_max:
  assumes "\<bar>q\<bar> < 2 ^ 1024 - 2 ^ 970"
  shows "\<bar>round_to_double q\<bar> < 2 ^ 1024"
proof (cases "\<bar>q\<bar> < 2 powi 1023")
  case True
  then have "\<bar>round_to_double q\<bar> \<le> 2 powi 1023"
    by (rule round_to_double_upper) simp
  also have "\<dots> < (2::rat) ^ 1024" by simp
  finally show ?thesis .
next
  case False
  then have lo: "2 powi 1023 \<le> \<bar>q\<bar>" by simp
  have hi: "\<bar>q\<bar> < 2 powi 1024" using assms by simp
  have "\<bar>q\<bar> / 2 ^ 971 < (2 ^ 1024 - 2 ^ 970) / 2 ^ 971"
    using assms by (simp add: divide_strict_right_mono)
  also have "\<dots> = of_int (2 ^ 53 - 1) + 1 / 2"
    by simp
  finally have "round_half_even (\<bar>q\<bar> / 2 ^ 971) \<le> 2 ^ 53 - 1"
    by (rule round_half_even_below_half)
  then have "(of_int (round_half_even (\<bar>q\<bar> / 2 ^ 971)) :: rat) \<le> of_int (2 ^ 53 - 1)"
    by (simp only: of_int_le_iff)
  then have "of_int (round_half_even (\<bar>q\<bar> / 2 ^ 971)) * (2::rat) ^ 971 \<le> of_int (2 ^ 53 - 1) * 2 ^ 971"
    by (intro mult_right_mono) simp_all
  also have "\<dots> < (2::rat) ^ 1024" by simp
  finally show ?thesis
    by (simp only: round_to_double_top_binade [OF lo hi])
qed

lemma round_to_double_overflow:
  assumes "2 ^ 1024 - 2 ^ 970 \<le> \<bar>q\<bar>"
  shows "2 ^ 1024 \<le> \<bar>round_to_double q\<bar>"
proof (cases "\<bar>q\<bar> < 2 powi 1024")
  case False
  then have "2 powi 1024 \<le> \<bar>q\<bar>" by simp
  then have "2 powi 1024 \<le> \<bar>round_to_double q\<bar>"
    by (rule round_to_double_lower) simp
  then show ?thesis by simp
next
  case True
  have "(2::rat) powi 1023 \<le> 2 ^ 1024 - 2 ^ 970" by simp
  with assms have lo: "2 powi 1023 \<le> \<bar>q\<bar>" by linarith
  have "of_int (2 ^ 53) - 1 / 2 = ((2::rat) ^ 1024 - 2 ^ 970) / 2 ^ 971"
    by simp
  also have "\<dots> \<le> \<bar>q\<bar> / 2 ^ 971"
    using assms by (simp add: divide_right_mono)
  finally have h: "of_int (2 ^ 53) - 1 / 2 \<le> \<bar>q\<bar> / 2 ^ 971" .
  have "2 ^ 53 \<le> round_half_even (\<bar>q\<bar> / 2 ^ 971)"
  proof (cases "\<bar>q\<bar> / 2 ^ 971 = of_int (2 ^ 53) - 1 / 2")
    case True
    then have "round_half_even (\<bar>q\<bar> / 2 ^ 971) = 2 ^ 53"
      by (rule round_half_even_odd_tie) simp
    then show ?thesis by simp
  next
    case False
    with h have "of_int (2 ^ 53) - 1 / 2 < \<bar>q\<bar> / 2 ^ 971" by simp
    then show ?thesis by (rule round_half_even_above_half)
  qed
  then have "(of_int (2 ^ 53) :: rat) \<le> of_int (round_half_even (\<bar>q\<bar> / 2 ^ 971))"
    by (simp only: of_int_le_iff)
  then have "of_int (2 ^ 53) * (2::rat) ^ 971 \<le> of_int (round_half_even (\<bar>q\<bar> / 2 ^ 971)) * 2 ^ 971"
    by (intro mult_right_mono) simp_all
  moreover have "of_int (2 ^ 53) * (2::rat) ^ 971 = 2 ^ 1024" by simp
  ultimately show ?thesis
    by (simp only: round_to_double_top_binade [OF lo True])
qed

lemma checked_double_iff:
  "checked_double q =
     (if \<bar>q\<bar> < 2 ^ 1024 - 2 ^ 970 then Inr (round_to_double q) else Inl OverflowError)"
proof (cases "\<bar>q\<bar> < 2 ^ 1024 - 2 ^ 970")
  case True
  then have "\<bar>round_to_double q\<bar> < 2 ^ 1024" by (rule round_to_double_below_max)
  with True show ?thesis by (simp add: checked_double_def not_le [symmetric])
next
  case False
  then have "2 ^ 1024 \<le> \<bar>round_to_double q\<bar>"
    by (intro round_to_double_overflow) simp
  with False show ?thesis by (simp add: checked_double_def)
qed

text \<open>The rounded value is a binary64 value: rounding it again changes nothing.\<close>

lemma round_to_double_idem: "round_to_double (round_to_double q) = round_to_double q"
proof (cases "q = 0")
  case True
  then show ?thesis by (simp add: round_to_double_def)
next
  case False
  define x where "x = max (binary_exponent \<bar>q\<bar>) (- 1022) - 52"
  define u :: rat where "u = 2 powi x"
  define k where "k = round_half_even (\<bar>q\<bar> / u)"
  have upos: "0 < u" by (simp add: u_def)
  have qpos: "0 < \<bar>q\<bar>" using False by simp
  have x: "- 1074 \<le> x" by (simp add: x_def)
  have r: "round_to_double q = of_int (sgn (if 0 < q then 1 else - 1) * k) * 2 powi x"
    using False by (simp add: round_to_double_def Let_def x_def u_def k_def sgn_if)
  have k0: "0 \<le> k"
    unfolding k_def using upos by (intro round_half_even_lower) simp
  have "\<bar>q\<bar> < 2 powi (binary_exponent \<bar>q\<bar> + 1)"
    by (rule binary_exponent_bounds(2) [OF qpos])
  also have "\<dots> \<le> 2 powi (53 + x)"
    by (intro power_int_increasing) (simp_all add: x_def)
  also have "\<dots> = 2 powi 53 * 2 powi x"
    by (rule power_int_add) simp
  finally have "\<bar>q\<bar> / u < 2 ^ 53"
    using upos by (simp add: u_def pos_divide_less_eq)
  then have "\<bar>q\<bar> / u \<le> of_int (2 ^ 53)" by simp
  then have k53: "k \<le> 2 ^ 53" unfolding k_def by (rule round_half_even_upper)
  show ?thesis
  proof (cases "k = 2 ^ 53")
    case False
    with k53 k0 have b: "\<bar>sgn (if 0 < q then 1 else - 1) * k\<bar> < 2 ^ 53"
      by (simp add: abs_mult)
    from r b x show ?thesis
      by (rule round_to_double_representable)
  next
    case True
    have "round_to_double q = of_int (sgn (if 0 < q then 1 else - 1) * 2 ^ 52) * (2 * 2 powi x)"
      by (simp add: r True)
    also have "2 * (2::rat) powi x = 2 powi (x + 1)"
      by (simp add: power_int_add)
    finally have "round_to_double q =
        of_int (sgn (if 0 < q then 1 else - 1) * 2 ^ 52) * 2 powi (x + 1)" .
    then show ?thesis
    proof (rule round_to_double_representable)
      show "\<bar>sgn (if 0 < q then 1 else - 1) * 2 ^ 52 :: int\<bar> < 2 ^ 53"
        by (simp add: abs_mult)
      show "- 1074 \<le> x + 1" using x by simp
    qed
  qed
qed










section \<open>Properties of the arithmetic of the program\<close>

lemma floor_rat_numeral_div: "\<lfloor>numeral a / numeral b :: rat\<rfloor> = numeral a div numeral b"
  by (metis floor_divide_of_int_eq of_int_numeral)



lemma round_to_double_2: "round_to_double 2 = 2"
  using round_to_double_of_int [of 2] by simp





lemma float_of_int_small: "\<bar>n\<bar> < 2 ^ 53 \<Longrightarrow> float_of_int n = Inr (of_int n)"
  by (simp add: float_of_int_def checked_double_of_int)

lemma float_of_int_result: "float_of_int n = Inr y \<Longrightarrow> y = round_to_double (of_int n)"
  by (auto simp: float_of_int_def checked_double_def Let_def split: if_splits)

lemma float_of_int_pos:
  assumes "float_of_int n = Inr y" and "0 < n"
  shows "1 \<le> y"
  using float_of_int_result [OF assms(1)] round_to_double_pos_int [OF assms(2)] by simp

lemma float_truediv_int_pos:
  assumes "float_truediv_int x n = Inr q" and "0 \<le> x" and "0 < n"
  shows "0 \<le> q"
proof -
  from assms(1) obtain y where y: "float_of_int n = Inr y" and q: "q = round_to_double (x / y)"
    by (auto simp: float_truediv_int_def bind_err_def split: sum.splits if_splits)
  have "1 \<le> y" using y assms(3) by (rule float_of_int_pos)
  with assms(2) have "0 \<le> x / y" by simp
  then show ?thesis unfolding q by (rule round_to_double_nonneg)
qed

lemma float_truediv_int_30: "float_truediv_int x 30 = Inr (round_to_double (x / 30))"
  by (simp add: float_truediv_int_def float_of_int_small bind_err_def)


lemma derive_balance_Inr:
  assumes "float_truediv_int (size_gb r) (shards r) = Inr q"
  shows "derive_balance r =
           Inr (r\<lparr>balance_ratio := Some (trunc q),
                  rec_shard_count :=
                    Some (if 30 \<le> size_gb r then trunc (round_to_double (size_gb r / 30))
                          else if 0 < size_gb r \<and> size_gb r < 30 then 1 else 0)\<rparr>)"
  using assms
  by (simp add: derive_balance_def bind_err_def Let_def SHARD_SZ_GB_def float_truediv_int_30)



lemma round_half_even_numeral: "round_half_even (numeral n) = numeral n"
  using round_half_even_of_int [of "numeral n"] by simp

lemma round_half_even_abs_le: "\<bar>of_int (round_half_even q) :: rat\<bar> \<le> \<bar>q\<bar> + 1"
proof -
  have "of_int \<lfloor>q\<rfloor> \<le> (of_int (round_half_even q) :: rat)"
    using round_half_even_ge_floor [of q] by (simp only: of_int_le_iff)
  moreover have "(of_int (round_half_even q) :: rat) \<le> of_int (\<lfloor>q\<rfloor> + 1)"
    using round_half_even_le_floor [of q] by (simp only: of_int_le_iff)
  moreover have "of_int \<lfloor>q\<rfloor> \<le> q" "q < of_int \<lfloor>q\<rfloor> + 1"
    by linarith+
  ultimately show ?thesis by (simp add: abs_le_iff) linarith
qed

lemma int_truediv_bounded:
  assumes "\<bar>of_int a / of_int b :: rat\<bar> < 2 powi 1000" and "b \<noteq> 0"
  shows "int_truediv a b = Inr (round_to_double (of_int a / of_int b))"
    and "\<bar>round_to_double (of_int a / of_int b)\<bar> \<le> 2 powi 1000"
proof -
  have "\<bar>of_int a / of_int b :: rat\<bar> < 2 powi 1023"
    using assms(1) power_int_increasing [of 1000 1023 "2::rat"] by simp
  then show "int_truediv a b = Inr (round_to_double (of_int a / of_int b))"
    using assms(2) by (simp add: int_truediv_def checked_double_no_overflow)
  show "\<bar>round_to_double (of_int a / of_int b)\<bar> \<le> 2 powi 1000"
    using assms(1) by (rule round_to_double_upper) simp
qed

lemma py_round_bounded:
  assumes "\<bar>x\<bar> \<le> 2 powi 1000"
  shows "py_round x 2 = Inr (round_to_double (of_int (round_half_even (x * 100)) / 100))"
proof -
  have "\<bar>of_int (round_half_even (x * 100)) :: rat\<bar> \<le> \<bar>x * 100\<bar> + 1"
    by (rule round_half_even_abs_le)
  then have "\<bar>of_int (round_half_even (x * 100)) / 100 :: rat\<bar> \<le> \<bar>x\<bar> + 1 / 100"
    by (simp add: abs_mult)
  also have "\<dots> \<le> 2 powi 1000 + 1 / 100" using assms by simp
  also have "\<dots> < (2::rat) powi 1023" by simp
  finally show ?thesis
    by (simp add: py_round_def checked_double_no_overflow)
qed

lemma refine_entry_Inr:
  assumes "py_getitem idx ''index'' = Inr name"
    and "py_getitem idx ''pri.store.size'' = Inr raw_size" and "py_int raw_size = Inr b"
    and "int_truediv b (1000 ^ 3) = Inr gb" and "py_round gb 2 = Inr sz"
    and "py_getitem idx ''pri'' = Inr raw_pri" and "py_int raw_pri = Inr s"
  shows "refine_entry idx =
           Inr \<lparr>index = name, size_gb = sz, shards = s, balance_ratio = None, rec_shard_count = None\<rparr>"
  using assms by (simp add: refine_entry_def bind_err_def)

lemma whole_gb_size:
  assumes "\<bar>k\<bar> < 2 ^ 53"
  shows "int_truediv (k * 1000000000) (1000 ^ 3) = Inr (of_int k)"
    and "py_round (of_int k) 2 = Inr (of_int k)"
proof -
  show "int_truediv (k * 1000000000) (1000 ^ 3) = Inr (of_int k)"
    using assms by (simp add: int_truediv_def checked_double_of_int)
  have "round_half_even (of_int k * 10 ^ 2) = k * 100"
    using round_half_even_of_int [of "k * 100"] by simp
  then show "py_round (of_int k) 2 = Inr (of_int k)"
    using assms by (simp add: py_round_def checked_double_of_int)
qed

lemma checked_double_is_double: "checked_double q = Inr r \<Longrightarrow> is_double r"
  by (auto simp: checked_double_def is_double_def Let_def round_to_double_idem not_le
      split: if_splits)

lemma py_round_double:
  assumes "is_double x"
  shows "py_round x 2 = Inr (round_to_double (of_int (round_half_even (x * 100)) / 100))"
proof (cases "\<bar>x\<bar> \<le> 2 powi 1000")
  case True
  then show ?thesis by (rule py_round_bounded)
next
  case False
  from assms have fx: "round_to_double x = x" and b: "\<bar>x\<bar> < 2 ^ 1024"
    by (simp_all add: is_double_def)
  from fx obtain m e where rep: "x = of_int m * 2 powi e" and m: "\<bar>m\<bar> < 2 ^ 53"
    by (rule fixed_representable)
  have "(2::rat) powi 1000 < \<bar>x\<bar>" using False by simp
  also have "\<bar>x\<bar> = of_int \<bar>m\<bar> * 2 powi e" by (simp add: rep abs_mult)
  also have "\<dots> \<le> of_int (2 ^ 53) * 2 powi e"
  proof (rule mult_right_mono)
    from m have "\<bar>m\<bar> \<le> 2 ^ 53" by simp
    then show "(of_int \<bar>m\<bar> :: rat) \<le> of_int (2 ^ 53)" by (simp only: of_int_le_iff)
    show "(0::rat) \<le> 2 powi e" by simp
  qed
  also have "\<dots> = 2 powi (53 + e)"
    by (simp add: power_int_add)
  finally have "1000 < 53 + e" by (rule two_powi_less_imp)
  then have "0 \<le> e" by simp
  then have "x = of_int (m * 2 ^ nat e)"
    by (simp add: rep power_int_def)
  then obtain n where n: "x = of_int n" ..
  have "round_half_even (x * 100) = n * 100"
    using round_half_even_of_int [of "n * 100"] by (simp add: n)
  then have "(of_int (round_half_even (x * 100)) / 100 :: rat) = x"
    by (simp add: n)
  moreover have "checked_double x = Inr x"
    using fx b by (simp add: checked_double_def not_le [symmetric])
  ultimately show ?thesis
    using fx by (simp add: py_round_def)
qed

lemma int_truediv_iff:
  "int_truediv a b =
     (if b = 0 then Inl ZeroDivisionError
      else if \<bar>of_int a / of_int b :: rat\<bar> < 2 ^ 1024 - 2 ^ 970
      then Inr (round_to_double (of_int a / of_int b)) else Inl OverflowError)"
  by (simp add: int_truediv_def checked_double_iff)

lemma float_of_int_iff:
  "float_of_int n =
     (if \<bar>n\<bar> < 2 ^ 1024 - 2 ^ 970 then Inr (round_to_double (of_int n)) else Inl OverflowError)"
proof -
  have "(\<bar>of_int n :: rat\<bar> < 2 ^ 1024 - 2 ^ 970) = (\<bar>n\<bar> < 2 ^ 1024 - 2 ^ 970)"
  proof -
    have "(\<bar>of_int n :: rat\<bar> < of_int (2 ^ 1024 - 2 ^ 970)) = (\<bar>n\<bar> < 2 ^ 1024 - 2 ^ 970)"
      by (simp only: of_int_abs [symmetric] of_int_less_iff)
    then show ?thesis by simp
  qed
  then show ?thesis
    by (simp add: float_of_int_def checked_double_iff)
qed

section \<open>Properties of the loops and of the sort\<close>

lemma refine_loop_fst:
  "fst (refine_loop xs refined errors) =
     refined @ map (\<lambda>x. projr (refine_entry x)) (filter (\<lambda>x. \<not> isl (refine_entry x)) xs)"
  by (induction xs arbitrary: refined errors) (auto split: sum.splits)

lemma refine_loop_snd:
  "snd (refine_loop xs refined errors) = errors @ filter (\<lambda>x. isl (refine_entry x)) xs"
  by (induction xs arbitrary: refined errors) (auto split: sum.splits)

lemma refine_loop_length:
  "length (fst (refine_loop xs refined errors)) + length (snd (refine_loop xs refined errors)) =
     length refined + length errors + length xs"
  by (induction xs arbitrary: refined errors) (auto split: sum.splits)

lemma insort_key_map_commute:
  "map g (insort_key (\<lambda>x. f (g x)) x xs) = insort_key f (g x) (map g xs)"
  by (induction xs) auto

lemma sort_key_map_commute:
  "map g (sort_key (\<lambda>x. f (g x)) xs) = sort_key f (map g xs)"
  by (induction xs) (auto simp: insort_key_map_commute)

lemma py_sorted_reverse_map:
  "map g (py_sorted_reverse (\<lambda>x. f (g x)) xs) = py_sorted_reverse f (map g xs)"
proof -
  have "sort_key f (map g (rev xs)) = map g (sort_key (\<lambda>x. f (g x)) (rev xs))"
    by (rule sort_key_map_commute [symmetric])
  then show ?thesis
    by (simp add: py_sorted_reverse_def rev_map)
qed

lemma py_sorted_reverse_mset: "mset (py_sorted_reverse key xs) = mset xs"
  by (simp add: py_sorted_reverse_def)

lemma py_sorted_reverse_length: "length (py_sorted_reverse key xs) = length xs"
  by (simp add: py_sorted_reverse_def)

lemma py_sorted_reverse_stable:
  "filter (\<lambda>x. key x = k) (py_sorted_reverse key xs) = filter (\<lambda>x. key x = k) xs"
  by (simp add: py_sorted_reverse_def rev_filter[symmetric] sort_key_stable)

lemma sorted_wrt_rev_ge:
  "sorted_wrt (\<lambda>a b. key b \<le> key a) (rev ys) = sorted (map key ys)"
  by (simp add: sorted_wrt_rev sorted_map)

lemma py_sorted_reverse_descending:
  "sorted_wrt (\<lambda>a b. key b \<le> key a) (py_sorted_reverse key xs)"
  by (simp add: py_sorted_reverse_def sorted_wrt_rev_ge)

lemma derive_balance_canonical:
  "derive_balance r = Inr r' \<Longrightarrow> canonical r' = canonical r"
  by (auto simp: derive_balance_def bind_err_def canonical_def Let_def split: sum.splits if_splits)

lemma derive_all_canonical:
  "map canonical (snd (derive_all rs)) = map canonical rs"
  by (induction rs) (auto split: sum.splits prod.splits dest: derive_balance_canonical)

text \<open>
  A record with no shards stops the loop of \<^verbatim>\<open>print_least_balanced\<close> with
  \<^verbatim>\<open>ZeroDivisionError\<close>, wherever it stands in the data.
\<close>

lemma checked_double_zero: "checked_double 0 = Inr 0"
  by (simp add: checked_double_def round_to_double_def)

lemma derive_balance_zero_shards: "shards r = 0 \<Longrightarrow> derive_balance r = Inl ZeroDivisionError"
  by (simp add: derive_balance_def float_truediv_int_def float_of_int_def checked_double_zero bind_err_def)

lemma derive_all_zero_shards:
  "r \<in> set data \<Longrightarrow> shards r = 0 \<Longrightarrow> fst (derive_all data) \<noteq> None"
  by (induction data) (auto simp: derive_balance_zero_shards split: sum.splits prod.splits)

lemma print_least_balanced_zero_shards:
  assumes "r \<in> set data" and "shards r = 0"
  shows "isl (fst (print_least_balanced data))"
proof -
  obtain e data' where "derive_all data = (Some e, data')"
    using derive_all_zero_shards [OF assms] by (cases "derive_all data") auto
  then show ?thesis
    by (simp add: print_least_balanced_def)
qed

lemma largest_output_canonical:
  "fst (print_largest_indexes data) =
     map (\<lambda>c. (fst c, fst (snd c))) (take 5 (py_sorted_reverse (\<lambda>c. fst (snd c)) (map canonical data)))"
proof -
  have "py_sorted_reverse (\<lambda>c. fst (snd c)) (map canonical data) =
        map canonical (py_sorted_reverse (\<lambda>r. fst (snd (canonical r))) data)"
    by (rule py_sorted_reverse_map [symmetric])
  moreover have "(\<lambda>r. fst (snd (canonical r))) = size_gb"
    by (simp add: canonical_def fun_eq_iff)
  ultimately show ?thesis
    by (simp add: print_largest_indexes_def sorted_largest_index_def take_map canonical_def)
qed

lemma shards_output_canonical:
  "fst (print_most_shards data) =
     map (\<lambda>c. (fst c, snd (snd c))) (take 5 (py_sorted_reverse (\<lambda>c. snd (snd c)) (map canonical data)))"
proof -
  have "py_sorted_reverse (\<lambda>c. snd (snd c)) (map canonical data) =
        map canonical (py_sorted_reverse (\<lambda>r. snd (snd (canonical r))) data)"
    by (rule py_sorted_reverse_map [symmetric])
  moreover have "(\<lambda>r. snd (snd (canonical r))) = shards"
    by (simp add: canonical_def fun_eq_iff)
  ultimately show ?thesis
    by (simp add: print_most_shards_def sorted_largest_shard_count_def take_map canonical_def)
qed

lemma print_least_balanced_canonical:
  "map canonical (snd (print_least_balanced data)) = map canonical data"
  using derive_all_canonical [of data]
  by (auto simp: print_least_balanced_def split: prod.splits option.splits)

section \<open>Shard counts that fit a float, and sizes beyond \<open>2 ^ 53\<close>\<close>


lemma round_to_double_nonzero_int:
  assumes "n \<noteq> 0"
  shows "round_to_double (of_int n) \<noteq> 0"
proof -
  have "1 \<le> \<bar>n\<bar>" using assms by simp
  then have "(of_int 1 :: rat) \<le> of_int \<bar>n\<bar>" by (simp only: of_int_le_iff)
  then have "(2::rat) powi 0 \<le> \<bar>of_int n\<bar>" by simp
  then have "(2::rat) powi 0 \<le> \<bar>round_to_double (of_int n)\<bar>"
    by (rule round_to_double_lower) simp
  then show ?thesis by auto
qed

lemma float_truediv_int_fits:
  assumes "n \<noteq> 0" and "\<bar>n\<bar> < 2 ^ 1024 - 2 ^ 970"
  shows "float_truediv_int x n = Inr (round_to_double (x / round_to_double (of_int n)))"
  using assms round_to_double_nonzero_int [OF assms(1)]
  by (simp add: float_truediv_int_def float_of_int_iff bind_err_def)




text \<open>
  The loop of \<^verbatim>\<open>print_least_balanced\<close> on shard counts that fit: every record is derived,
  the method returns its first five records by ratio. And the two float quotients, of sizes
  beyond \<open>2 ^ 53\<close>, whose floor is not the floor of the exact quotient.
\<close>

lemma derive_balance_fits:
  assumes "shards r \<noteq> 0" and "\<bar>shards r\<bar> < 2 ^ 1024 - 2 ^ 970"
  shows "derive_balance r =
           Inr (r\<lparr>balance_ratio :=
                    Some (trunc (round_to_double (size_gb r / round_to_double (of_int (shards r))))),
                  rec_shard_count :=
                    Some (if 30 \<le> size_gb r then trunc (round_to_double (size_gb r / 30))
                          else if 0 < size_gb r \<and> size_gb r < 30 then 1 else 0)\<rparr>)"
  by (rule derive_balance_Inr) (rule float_truediv_int_fits [OF assms])

lemma derive_all_fits:
  assumes "\<forall>r\<in>set data. shards r \<noteq> 0 \<and> \<bar>shards r\<bar> < 2 ^ 1024 - 2 ^ 970"
  shows "derive_all data = (None, map (\<lambda>r. projr (derive_balance r)) data)"
  using assms by (induction data) (simp_all add: derive_balance_fits)

lemma print_least_balanced_fits:
  assumes "\<forall>r\<in>set data. shards r \<noteq> 0 \<and> \<bar>shards r\<bar> < 2 ^ 1024 - 2 ^ 970"
  shows "print_least_balanced data =
           (Inr (take 5 (py_sorted_reverse (\<lambda>r. the (balance_ratio r))
                          (map (\<lambda>r. projr (derive_balance r)) data))),
            map (\<lambda>r. projr (derive_balance r)) data)"
proof -
  have "list_all (\<lambda>r. balance_ratio r \<noteq> None) (map (\<lambda>r. projr (derive_balance r)) data)"
    using assms by (simp add: list_all_iff derive_balance_fits)
  then show ?thesis
    by (simp add: print_least_balanced_def derive_all_fits [OF assms] sorted_least_balanced_def
        bind_err_def)
qed





section \<open>The claims about \<^verbatim>\<open>refine_data\<close>\<close>

text \<open>
  Claim C4. Every call of \<^verbatim>\<open>refine_data\<close> on an iterable input splits the entries into
  the refined records (the list it returns) and the raw entries with errors (the list it
  reports): an entry whose conversion succeeds gives one refined record, in input order,
  every other entry is kept as it is in the error list, in input order, and the two
  lengths add up to the length of the input.
\<close>

theorem refine_data_conservation:
  assumes "py_iter data = Inr entries"
  shows "\<exists>valid invalid.
           refine_data data = Inr (valid, invalid) \<and>
           valid = map (\<lambda>x. projr (refine_entry x)) (filter (\<lambda>x. \<not> isl (refine_entry x)) entries) \<and>
           invalid = filter (\<lambda>x. isl (refine_entry x)) entries \<and>
           length valid + length invalid = length entries"
proof -
  obtain valid invalid where l: "refine_loop entries [] [] = (valid, invalid)"
    by (cases "refine_loop entries [] []")
  have v: "valid = map (\<lambda>x. projr (refine_entry x)) (filter (\<lambda>x. \<not> isl (refine_entry x)) entries)"
    using refine_loop_fst [of entries "[]" "[]"] l by simp
  have i: "invalid = filter (\<lambda>x. isl (refine_entry x)) entries"
    using refine_loop_snd [of entries "[]" "[]"] l by simp
  have n: "length valid + length invalid = length entries"
    using refine_loop_length [of entries "[]" "[]"] l by simp
  have "refine_data data = Inr (valid, invalid)"
    using assms l by (simp add: refine_data_def bind_err_def)
  with v i n show ?thesis by blast
qed

text \<open>
  The witness: a list of three entries, a good one, \<^verbatim>\<open>None\<close> and one whose shard count
  is not a number. One record is refined and two entries are reported.
\<close>

theorem refine_data_conservation_witness:
  "py_iter (PyList
      [PyDict [(''index'', PyStr ''a''), (''pri.store.size'', PyStr ''2000000000''),
               (''pri'', PyStr ''3'')],
       PyNone,
       PyDict [(''index'', PyStr ''b''), (''pri.store.size'', PyStr ''5''),
               (''pri'', PyStr ''x'')]])
     = Inr [PyDict [(''index'', PyStr ''a''), (''pri.store.size'', PyStr ''2000000000''),
                    (''pri'', PyStr ''3'')],
            PyNone,
            PyDict [(''index'', PyStr ''b''), (''pri.store.size'', PyStr ''5''),
                    (''pri'', PyStr ''x'')]] \<and>
   refine_data (PyList
      [PyDict [(''index'', PyStr ''a''), (''pri.store.size'', PyStr ''2000000000''),
               (''pri'', PyStr ''3'')],
       PyNone,
       PyDict [(''index'', PyStr ''b''), (''pri.store.size'', PyStr ''5''),
               (''pri'', PyStr ''x'')]])
     = Inr ([\<lparr>index = PyStr ''a'', size_gb = 2, shards = 3,
               balance_ratio = None, rec_shard_count = None\<rparr>],
            [PyNone,
             PyDict [(''index'', PyStr ''b''), (''pri.store.size'', PyStr ''5''),
                     (''pri'', PyStr ''x'')]]) \<and>
   length [\<lparr>index = PyStr ''a'', size_gb = 2, shards = 3,
             balance_ratio = None, rec_shard_count = None\<rparr>] +
   length [PyNone,
           PyDict [(''index'', PyStr ''b''), (''pri.store.size'', PyStr ''5''),
                   (''pri'', PyStr ''x'')]] = (3::nat)"
proof -
  let ?a = "PyDict [(''index'', PyStr ''a''), (''pri.store.size'', PyStr ''2000000000''),
                    (''pri'', PyStr ''3'')]"
  let ?b = "PyDict [(''index'', PyStr ''b''), (''pri.store.size'', PyStr ''5''),
                    (''pri'', PyStr ''x'')]"
  have a: "refine_entry ?a = Inr \<lparr>index = PyStr ''a'', size_gb = 2, shards = 3,
                                  balance_ratio = None, rec_shard_count = None\<rparr>"
    using whole_gb_size [of 2]
    by (intro refine_entry_Inr [where raw_size = "PyStr ''2000000000''" and b = 2000000000
          and gb = 2 and raw_pri = "PyStr ''3''"])
      (simp_all add: int_of_str_def is_space_def is_digit_def digit_value_def digits_value_def
        int_max_str_digits_def)
  have n: "isl (refine_entry PyNone)"
    by (simp add: refine_entry_def bind_err_def)
  have "int_of_str ''x'' = Inl ValueError"
    by (simp add: int_of_str_def is_space_def is_digit_def)
  moreover have "int_of_str ''5'' = Inr 5"
    by (simp add: int_of_str_def is_space_def is_digit_def digit_value_def digits_value_def
        int_max_str_digits_def)
  moreover have "int_truediv 5 (1000 ^ 3) = Inr (round_to_double (of_int 5 / of_int (1000 ^ 3)))"
    and "\<bar>round_to_double (of_int 5 / of_int (1000 ^ 3))\<bar> \<le> 2 powi 1000"
    by (rule int_truediv_bounded; simp)+
  ultimately have b: "isl (refine_entry ?b)"
    by (simp add: refine_entry_def bind_err_def py_round_bounded)
  from refine_data_conservation [of "PyList [?a, PyNone, ?b]" "[?a, PyNone, ?b]"]
  obtain valid invalid where r: "refine_data (PyList [?a, PyNone, ?b]) = Inr (valid, invalid)"
    and v: "valid = map (\<lambda>x. projr (refine_entry x))
                     (filter (\<lambda>x. \<not> isl (refine_entry x)) [?a, PyNone, ?b])"
    and i: "invalid = filter (\<lambda>x. isl (refine_entry x)) [?a, PyNone, ?b]"
    by auto
  from v a n b have "valid = [\<lparr>index = PyStr ''a'', size_gb = 2, shards = 3,
                                 balance_ratio = None, rec_shard_count = None\<rparr>]"
    by simp
  moreover from i a n b have "invalid = [PyNone, ?b]"
    by simp
  ultimately show ?thesis using r by simp
qed

text \<open>
  Claim C9. \<^verbatim>\<open>refine_data\<close> never raises for a malformed entry: on every iterable input
  it returns, each entry whose conversion raises is in the reported error list, and the
  entries after it are still converted. An entry that is not a dict (wrong type), a
  dict without one of the three keys (missing field) and a dict whose size or shard
  count \<^verbatim>\<open>int\<close> refuses (non-numeric value) are such entries. \<^verbatim>\<open>refine_data\<close> raises
  exactly when the input itself cannot be iterated (\<^verbatim>\<open>None\<close>, a bool or a number), with
  the exception of the iteration.
\<close>

theorem refine_data_recovers:
  "(\<forall>entries. py_iter data = Inr entries \<longrightarrow>
      (\<exists>valid. refine_data data = Inr (valid, filter (\<lambda>x. isl (refine_entry x)) entries) \<and>
         valid = map (\<lambda>x. projr (refine_entry x)) (filter (\<lambda>x. \<not> isl (refine_entry x)) entries))) \<and>
   (\<forall>e. refine_data data = Inl e \<longleftrightarrow> py_iter data = Inl e) \<and>
   (\<forall>x. (\<forall>kvs. x \<noteq> PyDict kvs) \<longrightarrow> isl (refine_entry x)) \<and>
   (\<forall>kvs. map_of kvs ''index'' = None \<or> map_of kvs ''pri.store.size'' = None \<or>
          map_of kvs ''pri'' = None \<longrightarrow> isl (refine_entry (PyDict kvs))) \<and>
   (\<forall>kvs v. (map_of kvs ''pri.store.size'' = Some v \<or> map_of kvs ''pri'' = Some v) \<and>
            isl (py_int v) \<longrightarrow> isl (refine_entry (PyDict kvs)))"
proof (intro conjI allI impI)
  fix entries
  assume it: "py_iter data = Inr entries"
  obtain valid invalid where l: "refine_loop entries [] [] = (valid, invalid)"
    by (cases "refine_loop entries [] []")
  have v: "valid = map (\<lambda>x. projr (refine_entry x)) (filter (\<lambda>x. \<not> isl (refine_entry x)) entries)"
    using refine_loop_fst [of entries "[]" "[]"] l by simp
  have i: "invalid = filter (\<lambda>x. isl (refine_entry x)) entries"
    using refine_loop_snd [of entries "[]" "[]"] l by simp
  have "refine_data data = Inr (valid, invalid)"
    using it l by (simp add: refine_data_def bind_err_def)
  with v i show "\<exists>valid. refine_data data = Inr (valid, filter (\<lambda>x. isl (refine_entry x)) entries) \<and>
         valid = map (\<lambda>x. projr (refine_entry x)) (filter (\<lambda>x. \<not> isl (refine_entry x)) entries)"
    by blast
next
  fix e
  show "refine_data data = Inl e \<longleftrightarrow> py_iter data = Inl e"
    by (cases "py_iter data") (simp_all add: refine_data_def bind_err_def)
next
  fix x
  assume "\<forall>kvs. x \<noteq> PyDict kvs"
  then show "isl (refine_entry x)"
    by (cases x) (simp_all add: refine_entry_def bind_err_def)
next
  fix kvs :: "(string \<times> py_value) list"
  assume "map_of kvs ''index'' = None \<or> map_of kvs ''pri.store.size'' = None \<or>
          map_of kvs ''pri'' = None"
  then show "isl (refine_entry (PyDict kvs))"
    by (auto simp: refine_entry_def bind_err_def split: sum.splits option.splits)
next
  fix kvs :: "(string \<times> py_value) list" and v
  assume "(map_of kvs ''pri.store.size'' = Some v \<or> map_of kvs ''pri'' = Some v) \<and> isl (py_int v)"
  then show "isl (refine_entry (PyDict kvs))"
    by (auto simp: refine_entry_def bind_err_def isl_def split: sum.splits option.splits)
qed

text \<open>
  The witness: the entry \<^verbatim>\<open>None\<close> comes first and is reported, the good entry after it is
  still refined; the input \<^verbatim>\<open>None\<close> raises the \<^verbatim>\<open>TypeError\<close> of the iteration.
\<close>

theorem refine_data_recovers_witness:
  "py_iter (PyList
      [PyNone,
       PyDict [(''index'', PyStr ''a''), (''pri.store.size'', PyStr ''2000000000''),
               (''pri'', PyStr ''3'')]])
     = Inr [PyNone,
            PyDict [(''index'', PyStr ''a''), (''pri.store.size'', PyStr ''2000000000''),
                    (''pri'', PyStr ''3'')]] \<and>
   refine_data (PyList
      [PyNone,
       PyDict [(''index'', PyStr ''a''), (''pri.store.size'', PyStr ''2000000000''),
               (''pri'', PyStr ''3'')]])
     = Inr ([\<lparr>index = PyStr ''a'', size_gb = 2, shards = 3,
               balance_ratio = None, rec_shard_count = None\<rparr>], [PyNone]) \<and>
   py_iter PyNone = Inl TypeError \<and> refine_data PyNone = Inl TypeError"
proof -
  let ?a = "PyDict [(''index'', PyStr ''a''), (''pri.store.size'', PyStr ''2000000000''),
                    (''pri'', PyStr ''3'')]"
  have a: "refine_entry ?a = Inr \<lparr>index = PyStr ''a'', size_gb = 2, shards = 3,
                                  balance_ratio = None, rec_shard_count = None\<rparr>"
    using whole_gb_size [of 2]
    by (intro refine_entry_Inr [where raw_size = "PyStr ''2000000000''" and b = 2000000000
          and gb = 2 and raw_pri = "PyStr ''3''"])
      (simp_all add: int_of_str_def is_space_def is_digit_def digit_value_def digits_value_def
        int_max_str_digits_def)
  have n: "isl (refine_entry PyNone)"
    by (simp add: refine_entry_def bind_err_def)
  from refine_data_recovers [of "PyList [PyNone, ?a]"]
  obtain valid where r: "refine_data (PyList [PyNone, ?a]) =
        Inr (valid, filter (\<lambda>x. isl (refine_entry x)) [PyNone, ?a])"
    and v: "valid = map (\<lambda>x. projr (refine_entry x))
                     (filter (\<lambda>x. \<not> isl (refine_entry x)) [PyNone, ?a])"
    by auto
  have "refine_data PyNone = Inl TypeError"
    using refine_data_recovers [of PyNone] by simp
  with r v a n show ?thesis by simp
qed

text \<open>
  A string with a character that is neither whitespace nor a digit, an underscore or a
  sign is no int literal.
\<close>

lemma int_of_str_bad_char:
  assumes c: "c \<in> set s" and ns: "\<not> is_space c" and nd: "\<not> is_digit c"
    and nu: "c \<noteq> CHR ''_''" and np: "c \<noteq> CHR ''+''" and nm: "c \<noteq> CHR ''-''"
  shows "int_of_str s = Inl ValueError"
proof -
  define t where "t = dropWhile is_space s"
  define u where "u = (if t \<noteq> [] \<and> (hd t = CHR ''+'' \<or> hd t = CHR ''-'') then tl t else t)"
  define rest where "rest = dropWhile (\<lambda>c. is_digit c \<or> c = CHR ''_'') u"
  have "c \<notin> set (takeWhile is_space s)"
    using ns by (auto dest: set_takeWhileD)
  moreover have "set s = set (takeWhile is_space s) \<union> set t"
    unfolding t_def by (metis set_append takeWhile_dropWhile_id)
  ultimately have ct: "c \<in> set t" using c by simp
  have cu: "c \<in> set u"
  proof (cases "t \<noteq> [] \<and> (hd t = CHR ''+'' \<or> hd t = CHR ''-'')")
    case True
    then have "t = hd t # tl t" by simp
    with ct have "c = hd t \<or> c \<in> set (tl t)" by (metis set_ConsD)
    with True np nm show ?thesis by (auto simp: u_def)
  next
    case False
    then have "u = t" unfolding u_def by (simp only: if_False)
    with ct show ?thesis by simp
  qed
  have "c \<notin> set (takeWhile (\<lambda>c. is_digit c \<or> c = CHR ''_'') u)"
    using nd nu by (auto dest: set_takeWhileD)
  moreover have "set u = set (takeWhile (\<lambda>c. is_digit c \<or> c = CHR ''_'') u) \<union> set rest"
    unfolding rest_def by (metis set_append takeWhile_dropWhile_id)
  ultimately have "c \<in> set rest" using cu by simp
  with ns have nr: "\<not> list_all is_space rest"
    by (auto simp: list_all_iff)
  have "int_of_str s =
     (if valid_digits (takeWhile (\<lambda>c. is_digit c \<or> c = CHR ''_'') u) \<and> list_all is_space rest \<and>
         length (filter is_digit (takeWhile (\<lambda>c. is_digit c \<or> c = CHR ''_'') u)) \<le> int_max_str_digits
      then Inr (if t \<noteq> [] \<and> hd t = CHR ''-''
                then - digits_value (filter is_digit (takeWhile (\<lambda>c. is_digit c \<or> c = CHR ''_'') u))
                else digits_value (filter is_digit (takeWhile (\<lambda>c. is_digit c \<or> c = CHR ''_'') u)))
      else Inl ValueError)"
    unfolding int_of_str_def Let_def t_def u_def rest_def by (rule refl)
  with nr show ?thesis by simp
qed

text \<open>
  Claim C5, as the code has it. The claim fails in two places. The index name is stored
  as it was read: nothing makes it a string or checks that it is not empty. And a byte
  size whose quotient by \<open>1000 ^ 3\<close> is beyond the floats (from \<open>2 ^ 1024 - 2 ^ 970\<close> on, about
  \<open>1.8\<close> times ten to the 308 GB) raises \<^verbatim>\<open>OverflowError\<close> in the division, so that entry
  goes to the errors.
\<close>

theorem index_name_not_coerced:
  "refine_entry (PyDict [(''index'', PyInt 7), (''pri.store.size'', PyStr ''2000000000''),
                         (''pri'', PyStr ''3'')])
     = Inr \<lparr>index = PyInt 7, size_gb = 2, shards = 3,
            balance_ratio = None, rec_shard_count = None\<rparr> \<and>
   refine_entry (PyDict [(''index'', PyStr []), (''pri.store.size'', PyStr ''2000000000''),
                         (''pri'', PyStr ''3'')])
     = Inr \<lparr>index = PyStr [], size_gb = 2, shards = 3,
            balance_ratio = None, rec_shard_count = None\<rparr> \<and>
   refine_entry (PyDict [(''index'', PyStr ''a''), (''pri.store.size'', PyInt (1000 ^ 3 * (2 ^ 1024 - 2 ^ 970))),
                         (''pri'', PyInt 3)])
     = Inl OverflowError"
proof (intro conjI)
  show "refine_entry (PyDict [(''index'', PyInt 7), (''pri.store.size'', PyStr ''2000000000''),
                         (''pri'', PyStr ''3'')])
     = Inr \<lparr>index = PyInt 7, size_gb = 2, shards = 3,
            balance_ratio = None, rec_shard_count = None\<rparr>"
    using whole_gb_size [of 2]
    by (intro refine_entry_Inr [where raw_size = "PyStr ''2000000000''" and b = 2000000000
          and gb = 2 and raw_pri = "PyStr ''3''"])
      (simp_all add: int_of_str_def is_space_def is_digit_def digit_value_def digits_value_def
        int_max_str_digits_def)
  show "refine_entry (PyDict [(''index'', PyStr []), (''pri.store.size'', PyStr ''2000000000''),
                         (''pri'', PyStr ''3'')])
     = Inr \<lparr>index = PyStr [], size_gb = 2, shards = 3,
            balance_ratio = None, rec_shard_count = None\<rparr>"
    using whole_gb_size [of 2]
    by (intro refine_entry_Inr [where raw_size = "PyStr ''2000000000''" and b = 2000000000
          and gb = 2 and raw_pri = "PyStr ''3''"])
      (simp_all add: int_of_str_def is_space_def is_digit_def digit_value_def digits_value_def
        int_max_str_digits_def)
  have "int_truediv (1000 ^ 3 * (2 ^ 1024 - 2 ^ 970)) (1000 ^ 3) = Inl OverflowError"
    by (simp add: int_truediv_iff)
  then show "refine_entry (PyDict [(''index'', PyStr ''a''),
                 (''pri.store.size'', PyInt (1000 ^ 3 * (2 ^ 1024 - 2 ^ 970))), (''pri'', PyInt 3)])
     = Inl OverflowError"
    by (simp add: refine_entry_def bind_err_def)
qed

text \<open>
  The amended claim C5. For every raw entry whose index, size and shard count can be read,
  whose size \<^verbatim>\<open>int\<close> accepts as \<open>B\<close> and whose shard count \<^verbatim>\<open>int\<close> accepts as \<open>S\<close>: when
  \<open>\<bar>B\<bar> < 1000 ^ 3 * (2 ^ 1024 - 2 ^ 970)\<close>, \<^verbatim>\<open>refine_data\<close> builds a record with the index
  value unchanged, with the size \<^verbatim>\<open>round(B / 1000**3, 2)\<close> (the correctly rounded quotient
  of the two ints, rounded to two decimal places and read back as a float) and with
  \<open>S\<close> shards; from that bound on the division raises \<^verbatim>\<open>OverflowError\<close> and the entry
  goes to the errors.
\<close>

theorem refine_entry_well_formed:
  assumes "py_getitem idx ''index'' = Inr name"
    and "py_getitem idx ''pri.store.size'' = Inr raw_size" and "py_int raw_size = Inr B"
    and "py_getitem idx ''pri'' = Inr raw_pri" and "py_int raw_pri = Inr S"
  shows "(\<bar>B\<bar> < 1000 ^ 3 * (2 ^ 1024 - 2 ^ 970) \<longrightarrow>
           int_truediv B (1000 ^ 3) = Inr (round_to_double (of_int B / 1000 ^ 3)) \<and>
           py_round (round_to_double (of_int B / 1000 ^ 3)) 2 =
             Inr (round_to_double
                    (of_int (round_half_even (round_to_double (of_int B / 1000 ^ 3) * 100)) / 100)) \<and>
           refine_entry idx =
             Inr \<lparr>index = name,
                  size_gb = round_to_double
                    (of_int (round_half_even (round_to_double (of_int B / 1000 ^ 3) * 100)) / 100),
                  shards = S, balance_ratio = None, rec_shard_count = None\<rparr>) \<and>
         (1000 ^ 3 * (2 ^ 1024 - 2 ^ 970) \<le> \<bar>B\<bar> \<longrightarrow> refine_entry idx = Inl OverflowError)"
proof -
  have "(\<bar>of_int B :: rat\<bar> < of_int (1000 ^ 3 * (2 ^ 1024 - 2 ^ 970))) =
      (\<bar>B\<bar> < 1000 ^ 3 * (2 ^ 1024 - 2 ^ 970))"
    by (simp only: of_int_abs [symmetric] of_int_less_iff)
  then have "(\<bar>of_int B :: rat\<bar> < 1000 ^ 3 * (2 ^ 1024 - 2 ^ 970)) =
      (\<bar>B\<bar> < 1000 ^ 3 * (2 ^ 1024 - 2 ^ 970))"
    by simp
  moreover have "(\<bar>of_int B / of_int (1000 ^ 3) :: rat\<bar> < 2 ^ 1024 - 2 ^ 970) =
      (\<bar>of_int B :: rat\<bar> < 1000 ^ 3 * (2 ^ 1024 - 2 ^ 970))"
    by (simp add: pos_divide_less_eq mult.commute)
  ultimately have c: "(\<bar>of_int B / of_int (1000 ^ 3) :: rat\<bar> < 2 ^ 1024 - 2 ^ 970) =
      (\<bar>B\<bar> < 1000 ^ 3 * (2 ^ 1024 - 2 ^ 970))"
    by simp
  have d: "int_truediv B (1000 ^ 3) =
      (if \<bar>B\<bar> < 1000 ^ 3 * (2 ^ 1024 - 2 ^ 970)
       then Inr (round_to_double (of_int B / of_int (1000 ^ 3))) else Inl OverflowError)"
    by (simp only: int_truediv_iff c) simp
  show ?thesis
  proof (intro conjI impI)
    assume b: "\<bar>B\<bar> < 1000 ^ 3 * (2 ^ 1024 - 2 ^ 970)"
    with d have d': "int_truediv B (1000 ^ 3) = Inr (round_to_double (of_int B / of_int (1000 ^ 3)))"
      by simp
    then have "checked_double (of_int B / of_int (1000 ^ 3)) =
        Inr (round_to_double (of_int B / of_int (1000 ^ 3)))"
      by (simp add: int_truediv_def)
    then have "is_double (round_to_double (of_int B / of_int (1000 ^ 3)))"
      by (rule checked_double_is_double)
    then have r: "py_round (round_to_double (of_int B / of_int (1000 ^ 3))) 2 =
        Inr (round_to_double
          (of_int (round_half_even (round_to_double (of_int B / of_int (1000 ^ 3)) * 100)) / 100))"
      by (rule py_round_double)
    have e: "refine_entry idx =
        Inr \<lparr>index = name,
             size_gb = round_to_double
               (of_int (round_half_even (round_to_double (of_int B / of_int (1000 ^ 3)) * 100)) / 100),
             shards = S, balance_ratio = None, rec_shard_count = None\<rparr>"
      using assms(1-3) d' r assms(4,5) by (rule refine_entry_Inr)
    from d' show "int_truediv B (1000 ^ 3) = Inr (round_to_double (of_int B / 1000 ^ 3))"
      by simp
    from r show "py_round (round_to_double (of_int B / 1000 ^ 3)) 2 =
        Inr (round_to_double
          (of_int (round_half_even (round_to_double (of_int B / 1000 ^ 3) * 100)) / 100))"
      by simp
    from e show "refine_entry idx =
        Inr \<lparr>index = name,
             size_gb = round_to_double
               (of_int (round_half_even (round_to_double (of_int B / 1000 ^ 3) * 100)) / 100),
             shards = S, balance_ratio = None, rec_shard_count = None\<rparr>"
      by simp
  next
    assume "1000 ^ 3 * (2 ^ 1024 - 2 ^ 970) \<le> \<bar>B\<bar>"
    with d have "int_truediv B (1000 ^ 3) = Inl OverflowError" by simp
    with assms(1-3) show "refine_entry idx = Inl OverflowError"
      by (simp add: refine_entry_def bind_err_def)
  qed
qed

text \<open>
  The witness: two billion bytes and three shards under the index name \<^verbatim>\<open>7\<close>, an int,
  give the record with that name, the size 2.0 and three shards.
\<close>

theorem refine_entry_well_formed_witness:
  "py_getitem (PyDict [(''index'', PyInt 7), (''pri.store.size'', PyStr ''2000000000''),
                       (''pri'', PyStr ''3'')]) ''index'' = Inr (PyInt 7) \<and>
   py_getitem (PyDict [(''index'', PyInt 7), (''pri.store.size'', PyStr ''2000000000''),
                       (''pri'', PyStr ''3'')]) ''pri.store.size'' = Inr (PyStr ''2000000000'') \<and>
   py_int (PyStr ''2000000000'') = Inr 2000000000 \<and>
   py_getitem (PyDict [(''index'', PyInt 7), (''pri.store.size'', PyStr ''2000000000''),
                       (''pri'', PyStr ''3'')]) ''pri'' = Inr (PyStr ''3'') \<and>
   py_int (PyStr ''3'') = Inr 3 \<and>
   \<bar>2000000000 :: int\<bar> < 1000 ^ 3 * (2 ^ 1024 - 2 ^ 970) \<and>
   round_to_double (of_int (round_half_even (round_to_double (of_int 2000000000 / 1000 ^ 3) * 100)) / 100)
     = 2 \<and>
   refine_entry (PyDict [(''index'', PyInt 7), (''pri.store.size'', PyStr ''2000000000''),
                         (''pri'', PyStr ''3'')])
     = Inr \<lparr>index = PyInt 7, size_gb = 2, shards = 3,
            balance_ratio = None, rec_shard_count = None\<rparr>"
proof -
  let ?idx = "PyDict [(''index'', PyInt 7), (''pri.store.size'', PyStr ''2000000000''),
                      (''pri'', PyStr ''3'')]"
  have g1: "py_getitem ?idx ''index'' = Inr (PyInt 7)" by simp
  have g2: "py_getitem ?idx ''pri.store.size'' = Inr (PyStr ''2000000000'')" by simp
  have g3: "py_getitem ?idx ''pri'' = Inr (PyStr ''3'')" by simp
  have i1: "py_int (PyStr ''2000000000'') = Inr 2000000000"
    by (simp add: int_of_str_def is_space_def is_digit_def digit_value_def digits_value_def
        int_max_str_digits_def)
  have i2: "py_int (PyStr ''3'') = Inr 3"
    by (simp add: int_of_str_def is_space_def is_digit_def digit_value_def digits_value_def
        int_max_str_digits_def)
  have b: "\<bar>2000000000 :: int\<bar> < 1000 ^ 3 * (2 ^ 1024 - 2 ^ 970)" by simp
  have v: "round_to_double
      (of_int (round_half_even (round_to_double (of_int 2000000000 / 1000 ^ 3) * 100)) / 100) = 2"
    by (simp add: round_to_double_2 round_half_even_numeral)
  have "refine_entry ?idx =
      Inr \<lparr>index = PyInt 7,
           size_gb = round_to_double
             (of_int (round_half_even (round_to_double (of_int 2000000000 / 1000 ^ 3) * 100)) / 100),
           shards = 3, balance_ratio = None, rec_shard_count = None\<rparr>"
    using refine_entry_well_formed [OF g1 g2 i1 g3 i2] b by blast
  with g1 g2 g3 i1 i2 b v show ?thesis
    by (simp only: simp_thms)
qed

text \<open>
  Claim C10, as the code has it. The claim fails for a float: \<^verbatim>\<open>int\<close> truncates a finite
  float instead of refusing it, so the byte size \<^verbatim>\<open>1500000000.5\<close> given as a JSON number
  is accepted and becomes 1.5 GB.
\<close>

theorem float_size_accepted:
  "refine_entry (PyDict [(''index'', PyStr ''a''),
                         (''pri.store.size'', PyFloat (Finite (3000000001 / 2))),
                         (''pri'', PyStr ''1'')])
     = Inr \<lparr>index = PyStr ''a'', size_gb = 3 / 2, shards = 1,
            balance_ratio = None, rec_shard_count = None\<rparr>"
proof -
  have t: "py_int (PyFloat (Finite (3000000001 / 2))) = Inr 1500000000"
    by (simp add: trunc_def floor_rat_numeral_div)
  have c: "checked_double (3 / 2) = Inr (3 / 2)"
    by (rule checked_double_representable [where m = 3 and e = "- 1"]) simp_all
  have d: "int_truediv 1500000000 (1000 ^ 3) = Inr (3 / 2)"
    using c by (simp add: int_truediv_def)
  have r: "py_round (3 / 2) 2 = Inr (3 / 2)"
    using c by (simp add: py_round_def round_half_even_numeral)
  have s: "py_int (PyStr ''1'') = Inr 1"
    by (simp add: int_of_str_def is_space_def is_digit_def digit_value_def digits_value_def
        int_max_str_digits_def)
  show ?thesis
    by (rule refine_entry_Inr [OF _ _ t d r _ s]) simp_all
qed

text \<open>
  The amended claim C10. A byte size given as a string with a character that is neither
  whitespace, a digit, an underscore nor a sign (as the dot of \<^verbatim>\<open>"1500000000.5"\<close>) sends
  the entry to the errors, and so does the float \<^verbatim>\<open>NaN\<close> or an infinity. A finite float
  is not refused: the entry is converted as if the byte size were the float truncated
  toward zero.
\<close>

theorem size_field_int_coercion:
  "(\<forall>s. py_getitem idx ''pri.store.size'' = Inr (PyStr s) \<and>
        (\<exists>c\<in>set s. \<not> is_space c \<and> \<not> is_digit c \<and>
                    c \<noteq> CHR ''_'' \<and> c \<noteq> CHR ''+'' \<and> c \<noteq> CHR ''-'') \<longrightarrow>
        isl (refine_entry idx)) \<and>
   (\<forall>f. py_getitem idx ''pri.store.size'' = Inr (PyFloat f) \<and> f \<in> {NaN, PosInf, NegInf} \<longrightarrow>
        isl (refine_entry idx)) \<and>
   (\<forall>name q pri.
      refine_entry (PyDict [(''index'', name), (''pri.store.size'', PyFloat (Finite q)),
                            (''pri'', pri)]) =
      refine_entry (PyDict [(''index'', name), (''pri.store.size'', PyInt (trunc q)),
                            (''pri'', pri)]))"
proof (intro conjI allI impI)
  fix s
  assume h: "py_getitem idx ''pri.store.size'' = Inr (PyStr s) \<and>
        (\<exists>c\<in>set s. \<not> is_space c \<and> \<not> is_digit c \<and>
                    c \<noteq> CHR ''_'' \<and> c \<noteq> CHR ''+'' \<and> c \<noteq> CHR ''-'')"
  then have "int_of_str s = Inl ValueError"
    by (auto intro: int_of_str_bad_char)
  with h show "isl (refine_entry idx)"
    by (auto simp: refine_entry_def bind_err_def split: sum.splits)
next
  fix f
  assume "py_getitem idx ''pri.store.size'' = Inr (PyFloat f) \<and> f \<in> {NaN, PosInf, NegInf}"
  then show "isl (refine_entry idx)"
    by (auto simp: refine_entry_def bind_err_def split: sum.splits)
next
  fix name q pri
  show "refine_entry (PyDict [(''index'', name), (''pri.store.size'', PyFloat (Finite q)),
                            (''pri'', pri)]) =
      refine_entry (PyDict [(''index'', name), (''pri.store.size'', PyInt (trunc q)),
                            (''pri'', pri)])"
    by (simp add: refine_entry_def bind_err_def)
qed

text \<open>
  The witness: the string \<^verbatim>\<open>"1500000000.5"\<close> holds a dot, and the entry with it raises.
\<close>

theorem size_field_int_coercion_witness:
  "py_getitem (PyDict [(''index'', PyStr ''a''), (''pri.store.size'', PyStr ''1500000000.5''),
                       (''pri'', PyStr ''1'')]) ''pri.store.size'' = Inr (PyStr ''1500000000.5'') \<and>
   CHR ''.'' \<in> set ''1500000000.5'' \<and> \<not> is_space CHR ''.'' \<and> \<not> is_digit CHR ''.'' \<and>
   isl (refine_entry (PyDict [(''index'', PyStr ''a''),
                              (''pri.store.size'', PyStr ''1500000000.5''),
                              (''pri'', PyStr ''1'')]))"
proof -
  let ?idx = "PyDict [(''index'', PyStr ''a''), (''pri.store.size'', PyStr ''1500000000.5''),
                      (''pri'', PyStr ''1'')]"
  have g: "py_getitem ?idx ''pri.store.size'' = Inr (PyStr ''1500000000.5'')" by simp
  have c: "CHR ''.'' \<in> set ''1500000000.5''" by simp
  have p: "\<not> is_space CHR ''.''" "\<not> is_digit CHR ''.''"
    by (simp_all add: is_space_def is_digit_def)
  have "\<exists>c\<in>set ''1500000000.5''. \<not> is_space c \<and> \<not> is_digit c \<and>
                    c \<noteq> CHR ''_'' \<and> c \<noteq> CHR ''+'' \<and> c \<noteq> CHR ''-''"
    using p by (intro bexI [of _ "CHR ''.''"]) simp_all
  with g have "isl (refine_entry ?idx)"
    using size_field_int_coercion [of ?idx] by blast
  with g c p show ?thesis by (simp only: simp_thms)
qed

section \<open>The claims about \<^verbatim>\<open>AnalyzeData\<close>\<close>

text \<open>
  Claim C8. \<^verbatim>\<open>print_largest_indexes\<close> sorts the records by size, largest first: the sorted
  list is descending, it is a permutation of the data, and the records of any one size
  stand in their input order (the sort is stable). The report is the index and size of
  the first five records of the sorted list; with five records or fewer it lists them
  all and nothing else. The number five is fixed in the method.
\<close>

theorem top_by_size_sorted_stable:
  "sorted_wrt (\<lambda>a b. size_gb b \<le> size_gb a) (sorted_largest_index data) \<and>
   mset (sorted_largest_index data) = mset data \<and>
   (\<forall>k. filter (\<lambda>r. size_gb r = k) (sorted_largest_index data) = filter (\<lambda>r. size_gb r = k) data) \<and>
   fst (print_largest_indexes data) =
     map (\<lambda>r. (index r, size_gb r)) (take 5 (sorted_largest_index data)) \<and>
   length (fst (print_largest_indexes data)) = min 5 (length data) \<and>
   (length data \<le> 5 \<longrightarrow>
      mset (fst (print_largest_indexes data)) = mset (map (\<lambda>r. (index r, size_gb r)) data))"
proof (intro conjI allI impI)
  show "sorted_wrt (\<lambda>a b. size_gb b \<le> size_gb a) (sorted_largest_index data)"
    unfolding sorted_largest_index_def by (rule py_sorted_reverse_descending)
  show "mset (sorted_largest_index data) = mset data"
    unfolding sorted_largest_index_def by (rule py_sorted_reverse_mset)
  show "filter (\<lambda>r. size_gb r = k) (sorted_largest_index data) = filter (\<lambda>r. size_gb r = k) data" for k
    unfolding sorted_largest_index_def by (rule py_sorted_reverse_stable)
  show "fst (print_largest_indexes data) =
     map (\<lambda>r. (index r, size_gb r)) (take 5 (sorted_largest_index data))"
    by (simp add: print_largest_indexes_def)
  show "length (fst (print_largest_indexes data)) = min 5 (length data)"
    by (simp add: print_largest_indexes_def sorted_largest_index_def py_sorted_reverse_length min.commute)
next
  assume "length data \<le> 5"
  then have "take 5 (sorted_largest_index data) = sorted_largest_index data"
    by (simp add: sorted_largest_index_def py_sorted_reverse_length)
  then have "mset (fst (print_largest_indexes data)) =
      image_mset (\<lambda>r. (index r, size_gb r)) (mset (sorted_largest_index data))"
    by (simp add: print_largest_indexes_def)
  also have "\<dots> = mset (map (\<lambda>r. (index r, size_gb r)) data)"
    by (simp add: sorted_largest_index_def py_sorted_reverse_mset)
  finally show "mset (fst (print_largest_indexes data)) = mset (map (\<lambda>r. (index r, size_gb r)) data)" .
qed

text \<open>
  The witness: the sizes 50, 10, 100 and 50 again. The largest comes first and the two
  records of size 50 keep their input order.
\<close>

theorem top_by_size_sorted_stable_witness:
  "length [\<lparr>index = PyStr ''A'', size_gb = 50, shards = 1, balance_ratio = None, rec_shard_count = None\<rparr>,
           \<lparr>index = PyStr ''B'', size_gb = 10, shards = 1, balance_ratio = None, rec_shard_count = None\<rparr>,
           \<lparr>index = PyStr ''C'', size_gb = 100, shards = 1, balance_ratio = None, rec_shard_count = None\<rparr>,
           \<lparr>index = PyStr ''D'', size_gb = 50, shards = 1, balance_ratio = None, rec_shard_count = None\<rparr>]
     \<le> 5 \<and>
   fst (print_largest_indexes
     [\<lparr>index = PyStr ''A'', size_gb = 50, shards = 1, balance_ratio = None, rec_shard_count = None\<rparr>,
      \<lparr>index = PyStr ''B'', size_gb = 10, shards = 1, balance_ratio = None, rec_shard_count = None\<rparr>,
      \<lparr>index = PyStr ''C'', size_gb = 100, shards = 1, balance_ratio = None, rec_shard_count = None\<rparr>,
      \<lparr>index = PyStr ''D'', size_gb = 50, shards = 1, balance_ratio = None, rec_shard_count = None\<rparr>])
     = [(PyStr ''C'', 100), (PyStr ''A'', 50), (PyStr ''D'', 50), (PyStr ''B'', 10)] \<and>
   mset [(PyStr ''C'', 100 :: rat), (PyStr ''A'', 50), (PyStr ''D'', 50), (PyStr ''B'', 10)] =
   mset [(PyStr ''A'', 50), (PyStr ''B'', 10), (PyStr ''C'', 100), (PyStr ''D'', 50)]"
proof -
  let ?data =
    "[\<lparr>index = PyStr ''A'', size_gb = 50, shards = 1, balance_ratio = None, rec_shard_count = None\<rparr>,
      \<lparr>index = PyStr ''B'', size_gb = 10, shards = 1, balance_ratio = None, rec_shard_count = None\<rparr>,
      \<lparr>index = PyStr ''C'', size_gb = 100, shards = 1, balance_ratio = None, rec_shard_count = None\<rparr>,
      \<lparr>index = PyStr ''D'', size_gb = 50, shards = 1, balance_ratio = None, rec_shard_count = None\<rparr>]"
  have ev: "fst (print_largest_indexes ?data) =
      [(PyStr ''C'', 100), (PyStr ''A'', 50), (PyStr ''D'', 50), (PyStr ''B'', 10)]"
    by (simp add: print_largest_indexes_def sorted_largest_index_def py_sorted_reverse_def)
  have "length ?data \<le> 5" by simp
  with top_by_size_sorted_stable [of ?data]
  have "mset (fst (print_largest_indexes ?data)) = mset (map (\<lambda>r. (index r, size_gb r)) ?data)"
    by blast
  with ev show ?thesis by simp
qed

text \<open>
  Claim C3. No method changes the three keys that \<^verbatim>\<open>refine_data\<close> wrote: after
  \<^verbatim>\<open>print_least_balanced\<close>, also when it raised, every dict has its index, size and
  shards as before, and the other two methods leave the data as it is. The two keys that
  \<^verbatim>\<open>print_least_balanced\<close> adds are not seen by the size and shard reports: run after it on
  the same object, they print what they print before it.
\<close>

theorem analysis_frame:
  "map canonical (snd (print_least_balanced data)) = map canonical data \<and>
   snd (print_largest_indexes data) = data \<and>
   snd (print_most_shards data) = data \<and>
   fst (print_largest_indexes (snd (print_least_balanced data))) = fst (print_largest_indexes data) \<and>
   fst (print_most_shards (snd (print_least_balanced data))) = fst (print_most_shards data)"
  by (simp add: print_least_balanced_canonical largest_output_canonical shards_output_canonical)
    (simp add: print_largest_indexes_def print_most_shards_def)

text \<open>
  Claim C1, evaluated on the code. A record with no shards makes \<^verbatim>\<open>print_least_balanced\<close>
  raise \<^verbatim>\<open>ZeroDivisionError\<close>: the float division of the first statement of its loop has
  no guard. The same record is listed by the size and shard reports.
\<close>

theorem zero_shards_raises:
  "fst (print_least_balanced
     [\<lparr>index = PyStr ''a'', size_gb = 1, shards = 0, balance_ratio = None, rec_shard_count = None\<rparr>])
     = Inl ZeroDivisionError \<and>
   fst (print_largest_indexes
     [\<lparr>index = PyStr ''a'', size_gb = 1, shards = 0, balance_ratio = None, rec_shard_count = None\<rparr>])
     = [(PyStr ''a'', 1)] \<and>
   fst (print_most_shards
     [\<lparr>index = PyStr ''a'', size_gb = 1, shards = 0, balance_ratio = None, rec_shard_count = None\<rparr>])
     = [(PyStr ''a'', 0)]"
  by (simp add: print_least_balanced_def derive_balance_zero_shards print_largest_indexes_def
      print_most_shards_def sorted_largest_index_def sorted_largest_shard_count_def
      py_sorted_reverse_def)

text \<open>
  Claim C2, evaluated on the code. On the empty list the three methods print no record.
  On an input whose only entry has the shard count \<^verbatim>\<open>"0"\<close>, the entry is refined and the
  analysis ends with the \<^verbatim>\<open>ZeroDivisionError\<close> of \<^verbatim>\<open>print_least_balanced\<close>.
\<close>

theorem analysis_raises_on_zero_shards:
  "fst (print_largest_indexes []) = [] \<and>
   fst (print_most_shards []) = [] \<and>
   fst (print_least_balanced []) = Inr [] \<and>
   refine_data (PyList [PyDict [(''index'', PyStr ''a''), (''pri.store.size'', PyStr ''1000000000''),
                                (''pri'', PyStr ''0'')]])
     = Inr ([\<lparr>index = PyStr ''a'', size_gb = 1, shards = 0,
               balance_ratio = None, rec_shard_count = None\<rparr>], []) \<and>
   run_analysis (PyList [PyDict [(''index'', PyStr ''a''), (''pri.store.size'', PyStr ''1000000000''),
                                 (''pri'', PyStr ''0'')]])
     = Inl ZeroDivisionError"
proof -
  have e: "refine_entry (PyDict [(''index'', PyStr ''a''), (''pri.store.size'', PyStr ''1000000000''),
                                 (''pri'', PyStr ''0'')])
      = Inr \<lparr>index = PyStr ''a'', size_gb = 1, shards = 0,
             balance_ratio = None, rec_shard_count = None\<rparr>"
    using whole_gb_size [of 1]
    by (intro refine_entry_Inr [where raw_size = "PyStr ''1000000000''" and b = 1000000000
          and gb = 1 and raw_pri = "PyStr ''0''"])
      (simp_all add: int_of_str_def is_space_def is_digit_def digit_value_def digits_value_def
        int_max_str_digits_def)
  have r: "refine_data (PyList [PyDict [(''index'', PyStr ''a''),
        (''pri.store.size'', PyStr ''1000000000''), (''pri'', PyStr ''0'')]])
     = Inr ([\<lparr>index = PyStr ''a'', size_gb = 1, shards = 0,
               balance_ratio = None, rec_shard_count = None\<rparr>], [])"
    by (simp add: refine_data_def bind_err_def e)
  have p: "print_least_balanced
      [\<lparr>index = PyStr ''a'', size_gb = 1, shards = 0,
         balance_ratio = None, rec_shard_count = None\<rparr>]
     = (Inl ZeroDivisionError,
        [\<lparr>index = PyStr ''a'', size_gb = 1, shards = 0,
           balance_ratio = None, rec_shard_count = None\<rparr>])"
    by (simp add: print_least_balanced_def derive_balance_zero_shards)
  have "run_analysis (PyList [PyDict [(''index'', PyStr ''a''),
        (''pri.store.size'', PyStr ''1000000000''), (''pri'', PyStr ''0'')]])
     = Inl ZeroDivisionError"
    by (simp add: run_analysis_def r p bind_err_def print_largest_indexes_def
        print_most_shards_def)
  moreover have "fst (print_least_balanced []) = Inr []"
    by (simp add: print_least_balanced_def sorted_least_balanced_def py_sorted_reverse_def
        bind_err_def)
  moreover have "fst (print_largest_indexes []) = []" "fst (print_most_shards []) = []"
    by (simp_all add: print_largest_indexes_def print_most_shards_def sorted_largest_index_def
        sorted_largest_shard_count_def py_sorted_reverse_def)
  ultimately show ?thesis using r by simp
qed







end
